theory Spec2Isabelle
  imports Complex_Main "HOL-Library.Multiset"
begin

section \<open>Question answering over a large SQL database: the notebook's local logic\<close>

text \<open>
  The notebook \<^verbatim>\<open>docs/docs/how_to/sql_large_db.ipynb\<close> chains calls to a chat model, a
  vector store and a SQL database. Its own code is two functions, \<^verbatim>\<open>get_tables\<close> and
  \<^verbatim>\<open>query_as_list\<close>, a lambda joining retrieved documents, and the composition of the
  chains. The external services are parameters of the model: one value of the record
  \<open>world\<close> below fixes what each of them answers during one run.
\<close>

subsection \<open>Errors and results\<close>

text \<open>
  A raised exception is a value: \<open>Inl e\<close> is "raised \<open>e\<close>", \<open>Inr v\<close> is "returned \<open>v\<close>".
  \<open>DbError\<close> stands for what \<^verbatim>\<open>db.run\<close> raises, \<open>ApiError\<close> for a failure of the chat
  or embedding API; \<open>SyntaxError\<close>, \<open>ValueError\<close>, \<open>TypeError\<close> and \<open>NameError\<close> are
  Python's own.
\<close>

datatype error = DbError | ApiError | SyntaxError | ValueError | TypeError | NameError

subsection \<open>Table selection\<close>

text \<open>
  \<^verbatim>\<open>
  class Table(BaseModel):
      name: str = Field(description="Name of table in SQL database.")
  \<close>
\<close>

record Table =
  name :: string

text \<open>
  The list printed by \<^verbatim>\<open>db.get_usable_table_names()\<close> for the Chinook database, as the
  notebook records it.
\<close>

definition usable_table_names :: "string list" where
  "usable_table_names =
     [''Album'', ''Artist'', ''Customer'', ''Employee'', ''Genre'', ''Invoice'',
      ''InvoiceLine'', ''MediaType'', ''Playlist'', ''PlaylistTrack'', ''Track'']"

text \<open>
  \<^verbatim>\<open>
  def get_tables(categories: List[Table]) -> List[str]:
      tables = []
      for category in categories:
          if category.name == "Music":
              tables.extend(["Album", "Artist", "Genre", "MediaType",
                             "Playlist", "PlaylistTrack", "Track"])
          elif category.name == "Business":
              tables.extend(["Customer", "Employee", "Invoice", "InvoiceLine"])
      return tables
  \<close>
  The loop is \<open>get_tables_loop\<close>: its second argument is the list \<^verbatim>\<open>tables\<close> built so
  far, and \<^verbatim>\<open>extend\<close> appends to it.
\<close>

fun get_tables_loop :: "Table list \<Rightarrow> string list \<Rightarrow> string list" where
  "get_tables_loop [] tables = tables"
| "get_tables_loop (category # categories) tables =
     (if name category = ''Music'' then
        get_tables_loop categories
          (tables @ [''Album'', ''Artist'', ''Genre'', ''MediaType'',
                     ''Playlist'', ''PlaylistTrack'', ''Track''])
      else if name category = ''Business'' then
        get_tables_loop categories
          (tables @ [''Customer'', ''Employee'', ''Invoice'', ''InvoiceLine''])
      else get_tables_loop categories tables)"

definition get_tables :: "Table list \<Rightarrow> string list" where
  "get_tables categories = get_tables_loop categories []"

text \<open>
  The tables one category stands for, as the claims word it: the seven music tables for
  \<^verbatim>\<open>Music\<close>, the four business tables for \<^verbatim>\<open>Business\<close>, nothing for any other name.
\<close>

definition music_tables :: "string list" where
  "music_tables =
     [''Album'', ''Artist'', ''Genre'', ''MediaType'', ''Playlist'', ''PlaylistTrack'',
      ''Track'']"

definition business_tables :: "string list" where
  "business_tables = [''Customer'', ''Employee'', ''Invoice'', ''InvoiceLine'']"

definition tables_of_category :: "Table \<Rightarrow> string list" where
  "tables_of_category category =
     (if name category = ''Music'' then music_tables
      else if name category = ''Business'' then business_tables
      else [])"

subsection \<open>Python values\<close>

text \<open>
  A Python \<^verbatim>\<open>str\<close> is modelled by \<open>string\<close>, one \<open>char\<close> per code point; this covers
  the code points below 256 (ASCII and Latin-1).

  \<open>pyval\<close> are the values \<^verbatim>\<open>ast.literal_eval\<close> can return: \<^verbatim>\<open>None\<close>, booleans,
  numbers, strings, bytes, tuples, lists, sets, dicts and \<^verbatim>\<open>Ellipsis\<close>. A float is
  kept by its exact value; a set is kept as the list of its members as written, a
  dict as the list of its items in insertion order.
\<close>

datatype pyfloat = Finite real | Infinite | NaN

datatype pyval =
    PNone
  | PBool bool
  | PInt int
  | PFloat pyfloat
  | PComplex pyfloat pyfloat
  | PStr string
  | PBytes "char list"
  | PTuple "pyval list"
  | PList "pyval list"
  | PSet "pyval list"
  | PDict "(pyval \<times> pyval) list"
  | PEllipsis

text \<open>Truth value testing (\<^verbatim>\<open>if el\<close>): zero, \<^verbatim>\<open>None\<close>, \<^verbatim>\<open>False\<close> and empty containers are false.\<close>

fun float_nonzero :: "pyfloat \<Rightarrow> bool" where
  "float_nonzero (Finite x) = (x \<noteq> 0)"
| "float_nonzero Infinite = True"
| "float_nonzero NaN = True"

fun truthy :: "pyval \<Rightarrow> bool" where
  "truthy PNone = False"
| "truthy (PBool b) = b"
| "truthy (PInt i) = (i \<noteq> 0)"
| "truthy (PFloat x) = float_nonzero x"
| "truthy (PComplex x y) = (float_nonzero x \<or> float_nonzero y)"
| "truthy (PStr s) = (s \<noteq> [])"
| "truthy (PBytes b) = (b \<noteq> [])"
| "truthy (PTuple xs) = (xs \<noteq> [])"
| "truthy (PList xs) = (xs \<noteq> [])"
| "truthy (PSet xs) = (xs \<noteq> [])"
| "truthy (PDict kvs) = (kvs \<noteq> [])"
| "truthy PEllipsis = True"

subsection \<open>The regular expression and \<^verbatim>\<open>strip\<close>\<close>

text \<open>
  The character classes of Python's \<^verbatim>\<open>re\<close> module for \<^verbatim>\<open>str\<close> patterns, on the code
  points below 256: \<^verbatim>\<open>\d\<close> is a decimal digit, \<^verbatim>\<open>\w\<close> is an alphanumeric character or
  the underscore, and \<^verbatim>\<open>str.strip()\<close> removes the characters for which
  \<^verbatim>\<open>str.isspace\<close> holds.
\<close>

definition is_digit :: "char \<Rightarrow> bool" where
  "is_digit c = (let n = (of_char c :: nat) in 48 \<le> n \<and> n \<le> 57)"

definition is_word :: "char \<Rightarrow> bool" where
  "is_word c =
     (let n = (of_char c :: nat) in
        (48 \<le> n \<and> n \<le> 57) \<or> (65 \<le> n \<and> n \<le> 90) \<or> n = 95 \<or> (97 \<le> n \<and> n \<le> 122)
        \<or> n = 170 \<or> n = 178 \<or> n = 179 \<or> n = 181 \<or> n = 185 \<or> n = 186
        \<or> (188 \<le> n \<and> n \<le> 190) \<or> (192 \<le> n \<and> n \<le> 214) \<or> (216 \<le> n \<and> n \<le> 246)
        \<or> (248 \<le> n \<and> n \<le> 255))"

definition is_space :: "char \<Rightarrow> bool" where
  "is_space c =
     (let n = (of_char c :: nat) in
        (9 \<le> n \<and> n \<le> 13) \<or> (28 \<le> n \<and> n \<le> 32) \<or> n = 133 \<or> n = 160)"

text \<open>
  What a match of \<^verbatim>\<open>\b\d+\b\<close> is: in the string \<open>a @ d @ b\<close>, the part \<open>d\<close> is a
  standalone run of digits when it is a non-empty run of digits with a word boundary on
  each side, that is, with no word character just before it and none just after it.
\<close>

definition standalone_run :: "string \<Rightarrow> string \<Rightarrow> string \<Rightarrow> bool" where
  "standalone_run a d b =
     (d \<noteq> [] \<and> list_all is_digit d
      \<and> (a = [] \<or> \<not> is_word (last a)) \<and> (b = [] \<or> \<not> is_word (hd b)))"

text \<open>
  \<open>match_at prev s\<close> matches the pattern \<^verbatim>\<open>\b\d+\b\<close> at the start of \<open>s\<close>, where \<open>prev\<close>
  tells whether the character before \<open>s\<close> is a word character (\<open>False\<close> at the start
  of the string), and returns what follows the match. The first \<^verbatim>\<open>\b\<close> needs a
  non-word character (or the start) before the first digit. \<^verbatim>\<open>\d+\<close> is greedy and takes
  the whole run of digits; the second \<^verbatim>\<open>\b\<close> then needs a non-word character (or the
  end) after the run. Backtracking to a shorter run cannot help, since there is no
  boundary between two digits.
\<close>

definition match_at :: "bool \<Rightarrow> string \<Rightarrow> string option" where
  "match_at prev s =
     (let run = takeWhile is_digit s; rest = dropWhile is_digit s in
        if \<not> prev \<and> run \<noteq> [] \<and> (case rest of [] \<Rightarrow> True | c # _ \<Rightarrow> \<not> is_word c)
        then Some rest else None)"

text \<open>
  \<^verbatim>\<open>re.sub(r"\b\d+\b", "", string)\<close> scans from the left: where the pattern matches, the
  match is dropped and the scan goes on after it; elsewhere the character is copied.
\<close>

function re_sub_from :: "bool \<Rightarrow> string \<Rightarrow> string" where
  "re_sub_from prev [] = []"
| "re_sub_from prev (c # cs) =
     (case match_at prev (c # cs) of
        Some rest \<Rightarrow> re_sub_from True rest
      | None \<Rightarrow> c # re_sub_from (is_word c) cs)"
  by pat_completeness auto
termination
proof (relation "measure (\<lambda>(prev, s). length s)")
  show "wf (measure (\<lambda>(prev, s). length s))" by simp
next
  fix prev c cs rest
  assume "match_at prev (c # cs) = Some rest"
  then have "rest = dropWhile is_digit cs"
    by (auto simp add: match_at_def Let_def split: if_splits)
  then have "length rest \<le> length cs"
    by (simp add: length_dropWhile_le)
  then show "((True, rest), (prev, c # cs)) \<in> measure (\<lambda>(prev, s). length s)"
    by simp
next
  fix prev c cs
  show "((is_word c, cs), (prev, c # cs)) \<in> measure (\<lambda>(prev, s). length s)"
    by simp
qed

definition re_sub_digits :: "string \<Rightarrow> string" where
  "re_sub_digits s = re_sub_from False s"

text \<open>\<^verbatim>\<open>re.search(r"\b\d+\b", s) is not None\<close>: the string has a standalone run of digits.\<close>

fun re_search_from :: "bool \<Rightarrow> string \<Rightarrow> bool" where
  "re_search_from prev [] = False"
| "re_search_from prev (c # cs) =
     (match_at prev (c # cs) \<noteq> None \<or> re_search_from (is_word c) cs)"

definition has_digit_token :: "string \<Rightarrow> bool" where
  "has_digit_token s = re_search_from False s"

definition strip :: "string \<Rightarrow> string" where
  "strip s = rev (dropWhile is_space (rev (dropWhile is_space s)))"

definition leading_space :: "string \<Rightarrow> bool" where
  "leading_space s = (s \<noteq> [] \<and> is_space (hd s))"

definition trailing_space :: "string \<Rightarrow> bool" where
  "trailing_space s = (s \<noteq> [] \<and> is_space (last s))"

subsection \<open>The external services\<close>

text \<open>
  What the prompt template of the query chain is filled with: the question, the schema
  of the tables and, in the second half of the notebook, the retrieved proper nouns.
\<close>

record prompt_values =
  p_input :: string
  p_table_info :: string
  p_proper_nouns :: "string option"

text \<open>
  One run of the notebook talks to the services below. Each of them either returns or
  raises.
  \<^item> \<open>category_llm\<close>: \<^verbatim>\<open>category_chain = prompt | llm_with_tools | output_parser\<close>, from
    the user's question to the categories the chat model picks;
  \<^item> \<open>sql_llm\<close>: the chat model asked for a SQL query;
  \<^item> \<open>table_info\<close>: the schema of the named tables (of all tables for \<open>None\<close>);
  \<^item> \<open>db_run\<close>: \<^verbatim>\<open>db.run\<close>;
  \<^item> \<open>literal_eval\<close>: \<^verbatim>\<open>ast.literal_eval\<close>;
  \<^item> \<open>embedding_distance\<close>: the embedding API applied to a question, giving the
    distance from the question to each indexed text;
  \<^item> \<open>set_order\<close>: the order in which this run iterates over the members of a set
    (it depends on the hash seed of the process).
\<close>

record world =
  category_llm :: "string \<Rightarrow> error + Table list"
  sql_llm :: "prompt_values \<Rightarrow> error + string"
  table_info :: "string list option \<Rightarrow> error + string"
  db_run :: "string \<Rightarrow> error + string"
  literal_eval :: "string \<Rightarrow> error + pyval"
  embedding_distance :: "string \<Rightarrow> error + (string \<Rightarrow> real)"
  set_order :: "pyval list \<Rightarrow> pyval list"

text \<open>
  Iteration (\<^verbatim>\<open>for el in sub\<close>): a string yields its characters as strings of length
  one, bytes yield integers, a dict yields its keys, a set yields its members in the
  order of the run; a value that is not iterable raises \<^verbatim>\<open>TypeError\<close>.
\<close>

fun py_iter :: "world \<Rightarrow> pyval \<Rightarrow> error + pyval list" where
  "py_iter w (PTuple xs) = Inr xs"
| "py_iter w (PList xs) = Inr xs"
| "py_iter w (PSet xs) = Inr (set_order w xs)"
| "py_iter w (PDict kvs) = Inr (map fst kvs)"
| "py_iter w (PStr s) = Inr (map (\<lambda>c. PStr [c]) s)"
| "py_iter w (PBytes b) = Inr (map (\<lambda>c. PInt (of_char c)) b)"
| "py_iter w _ = Inl TypeError"

subsection \<open>Distinct column values: \<^verbatim>\<open>query_as_list\<close>\<close>

text \<open>
  \<^verbatim>\<open>
  def query_as_list(db, query):
      res = db.run(query)
      res = [el for sub in ast.literal_eval(res) for el in sub if el]
      res = [re.sub(r"\b\d+\b", "", string).strip() for string in res]
      return res
  \<close>
  \<open>flatten_truthy\<close> is the first comprehension, over the rows already obtained;
  \<open>clean_all\<close> is the second one. \<^verbatim>\<open>re.sub\<close> raises \<^verbatim>\<open>TypeError\<close> on a value that is
  not a string.
\<close>

fun flatten_truthy :: "world \<Rightarrow> pyval list \<Rightarrow> error + pyval list" where
  "flatten_truthy w [] = Inr []"
| "flatten_truthy w (sub # subs) =
     (case py_iter w sub of
        Inl e \<Rightarrow> Inl e
      | Inr els \<Rightarrow>
          (case flatten_truthy w subs of
             Inl e \<Rightarrow> Inl e
           | Inr rest \<Rightarrow> Inr (filter truthy els @ rest)))"

fun clean :: "pyval \<Rightarrow> error + string" where
  "clean (PStr string) = Inr (strip (re_sub_digits string))"
| "clean _ = Inl TypeError"

fun clean_all :: "pyval list \<Rightarrow> error + string list" where
  "clean_all [] = Inr []"
| "clean_all (el # els) =
     (case clean el of
        Inl e \<Rightarrow> Inl e
      | Inr s \<Rightarrow> (case clean_all els of Inl e \<Rightarrow> Inl e | Inr ss \<Rightarrow> Inr (s # ss)))"

definition query_as_list :: "world \<Rightarrow> string \<Rightarrow> error + string list" where
  "query_as_list w query =
     (case db_run w query of
        Inl e \<Rightarrow> Inl e
      | Inr res \<Rightarrow>
          (case literal_eval w res of
             Inl e \<Rightarrow> Inl e
           | Inr v \<Rightarrow>
               (case py_iter w v of
                  Inl e \<Rightarrow> Inl e
                | Inr subs \<Rightarrow>
                    (case flatten_truthy w subs of
                       Inl e \<Rightarrow> Inl e
                     | Inr els \<Rightarrow> clean_all els))))"

text \<open>
  \<^verbatim>\<open>
  proper_nouns = query_as_list(db, "SELECT Name FROM Artist")
  proper_nouns += query_as_list(db, "SELECT Title FROM Album")
  proper_nouns += query_as_list(db, "SELECT Name FROM Genre")
  \<close>
  The state of this cell is the binding of the variable \<^verbatim>\<open>proper_nouns\<close> (\<open>None\<close>:
  unbound). A statement returns the exception it raised, if any, and the binding it
  leaves. \<^verbatim>\<open>+=\<close> reads the variable before it evaluates its right-hand side.
\<close>

type_synonym binding = "string list option"

definition assign_proper_nouns :: "world \<Rightarrow> string \<Rightarrow> binding \<Rightarrow> error option \<times> binding" where
  "assign_proper_nouns w query b =
     (case query_as_list w query of
        Inl e \<Rightarrow> (Some e, b)
      | Inr res \<Rightarrow> (None, Some res))"

definition extend_proper_nouns :: "world \<Rightarrow> string \<Rightarrow> binding \<Rightarrow> error option \<times> binding" where
  "extend_proper_nouns w query b =
     (case b of
        None \<Rightarrow> (Some NameError, b)
      | Some old \<Rightarrow>
          (case query_as_list w query of
             Inl e \<Rightarrow> (Some e, b)
           | Inr res \<Rightarrow> (None, Some (old @ res))))"

definition seq ::
  "(binding \<Rightarrow> error option \<times> binding) \<Rightarrow> (binding \<Rightarrow> error option \<times> binding) \<Rightarrow>
   binding \<Rightarrow> error option \<times> binding" where
  "seq s1 s2 b = (case s1 b of (Some e, b') \<Rightarrow> (Some e, b') | (None, b') \<Rightarrow> s2 b')"

definition proper_nouns_cell :: "world \<Rightarrow> binding \<Rightarrow> error option \<times> binding" where
  "proper_nouns_cell w =
     seq (assign_proper_nouns w ''SELECT Name FROM Artist'')
       (seq (extend_proper_nouns w ''SELECT Title FROM Album'')
            (extend_proper_nouns w ''SELECT Name FROM Genre''))"

subsection \<open>The chains\<close>

text \<open>
  The dict passed along a chain: \<^verbatim>\<open>{"question": ...}\<close>, to which
  \<^verbatim>\<open>RunnablePassthrough.assign\<close> adds \<^verbatim>\<open>table_names_to_use\<close> or \<^verbatim>\<open>proper_nouns\<close>.
\<close>

record query_input =
  question :: string
  table_names_to_use :: "string list option"
  proper_nouns :: "string option"

text \<open>
  A run of a chain leaves a trace: each step records when it starts, and when it
  returns or raises. \<open>then_do\<close> is the composition \<^verbatim>\<open>|\<close>: the second runnable is invoked
  on what the first one returned, and not at all if the first one raised.
\<close>

datatype event =
    SelectStart string
  | SelectDone "string list"
  | RetrieveStart string
  | RetrieveDone "string list"
  | GenerateStart query_input
  | GenerateDone string
  | ExecuteStart string
  | ExecuteDone string
  | Raised error

type_synonym 'a traced = "event list \<times> (error + 'a)"

definition step :: "event \<Rightarrow> error + 'a \<Rightarrow> ('a \<Rightarrow> event) \<Rightarrow> 'a traced" where
  "step started r finished =
     (case r of
        Inl e \<Rightarrow> ([started, Raised e], Inl e)
      | Inr x \<Rightarrow> ([started, finished x], Inr x))"

definition then_do :: "'a traced \<Rightarrow> ('a \<Rightarrow> 'b traced) \<Rightarrow> 'b traced" where
  "then_do m f =
     (case m of
        (t, Inl e) \<Rightarrow> (t, Inl e)
      | (t, Inr x) \<Rightarrow> (case f x of (t', r) \<Rightarrow> (t @ t', r)))"

text \<open>
  \<open>preceded_by t later earlier\<close>: in the trace \<open>t\<close>, the event \<open>later\<close> does not occur
  before the first occurrence of \<open>earlier\<close>.
\<close>

fun preceded_by :: "event list \<Rightarrow> event \<Rightarrow> event \<Rightarrow> bool" where
  "preceded_by [] later earlier = True"
| "preceded_by (e # t) later earlier =
     (if e = earlier then True else e \<noteq> later \<and> preceded_by t later earlier)"

text \<open>
  \<^verbatim>\<open>
  table_chain = category_chain | get_tables
  table_chain = {"input": itemgetter("question")} | table_chain
  \<close>
\<close>

definition table_chain :: "world \<Rightarrow> query_input \<Rightarrow> string list traced" where
  "table_chain w x =
     step (SelectStart (question x))
       (case category_llm w (question x) of
          Inl e \<Rightarrow> Inl e
        | Inr categories \<Rightarrow> Inr (get_tables categories))
       SelectDone"

text \<open>
  Modelled from the spec: \<^verbatim>\<open>create_sql_query_chain\<close> is defined in the library, outside
  the notebook. The spec: the query-construction step "formats a prompt template with
  schema and retrieved values, sends it to a hosted language model, and returns the raw
  text response as a SQL string, with no validation, sanitization, or execution-plan
  reasoning performed locally".
\<close>

definition create_sql_query_chain :: "world \<Rightarrow> query_input \<Rightarrow> string traced" where
  "create_sql_query_chain w x =
     step (GenerateStart x)
       (case table_info w (table_names_to_use x) of
          Inl e \<Rightarrow> Inl e
        | Inr info \<Rightarrow>
            sql_llm w \<lparr>p_input = question x, p_table_info = info,
                       p_proper_nouns = proper_nouns x\<rparr>)
       GenerateDone"

text \<open>
  \<^verbatim>\<open>
  query_chain = create_sql_query_chain(llm, db)
  full_chain = RunnablePassthrough.assign(table_names_to_use=table_chain) | query_chain
  \<close>
\<close>

definition full_chain :: "world \<Rightarrow> query_input \<Rightarrow> string traced" where
  "full_chain w x =
     then_do (table_chain w x)
       (\<lambda>tables. create_sql_query_chain w (x\<lparr>table_names_to_use := Some tables\<rparr>))"

text \<open>
  \<^verbatim>\<open>
  query = full_chain.invoke({"question": ...})
  print(query)
  db.run(query)
  \<close>
\<close>

definition execute :: "world \<Rightarrow> string \<Rightarrow> string traced" where
  "execute w query = step (ExecuteStart query) (db_run w query) ExecuteDone"

definition full_chain_cells :: "world \<Rightarrow> string \<Rightarrow> string traced" where
  "full_chain_cells w q =
     then_do
       (full_chain w \<lparr>question = q, table_names_to_use = None, proper_nouns = None\<rparr>)
       (execute w)"

text \<open>
  Modelled from the spec: the vector store (\<^verbatim>\<open>FAISS.from_texts\<close>, \<^verbatim>\<open>as_retriever\<close>) is
  defined in the library, outside the notebook. The spec: the retrieval step "takes a
  user question, performs nearest-neighbor lookup against a precomputed embedding index
  of distinct column values, returns the top-K matches". The index is the list of
  indexed texts; the \<open>k\<close> nearest ones are returned, nearest first.
\<close>

definition as_retriever :: "world \<Rightarrow> string list \<Rightarrow> nat \<Rightarrow> string \<Rightarrow> error + string list" where
  "as_retriever w vector_db k q =
     (case embedding_distance w q of
        Inl e \<Rightarrow> Inl e
      | Inr d \<Rightarrow> Inr (take k (sort_key d vector_db)))"

text \<open>\<^verbatim>\<open>retriever = vector_db.as_retriever(search_kwargs={"k": 15})\<close>\<close>

definition retriever :: "world \<Rightarrow> string list \<Rightarrow> string \<Rightarrow> error + string list" where
  "retriever w vector_db = as_retriever w vector_db 15"

text \<open>\<^verbatim>\<open>sep.join(strings)\<close>\<close>

fun str_join :: "string \<Rightarrow> string list \<Rightarrow> string" where
  "str_join sep [] = []"
| "str_join sep [s] = s"
| "str_join sep (s # t # ts) = s @ sep @ str_join sep (t # ts)"

text \<open>
  \<^verbatim>\<open>
  retriever_chain = (
      itemgetter("question")
      | retriever
      | (lambda docs: "\n".join(doc.page_content for doc in docs))
  )
  chain = RunnablePassthrough.assign(proper_nouns=retriever_chain) | query_chain
  \<close>
  A document is modelled by its \<^verbatim>\<open>page_content\<close>.
\<close>

definition retriever_chain :: "world \<Rightarrow> string list \<Rightarrow> query_input \<Rightarrow> string traced" where
  "retriever_chain w vector_db x =
     then_do
       (step (RetrieveStart (question x)) (retriever w vector_db (question x)) RetrieveDone)
       (\<lambda>docs. ([], Inr (str_join [CHR 0x0A] docs)))"

definition chain :: "world \<Rightarrow> string list \<Rightarrow> query_input \<Rightarrow> string traced" where
  "chain w vector_db x =
     then_do (retriever_chain w vector_db x)
       (\<lambda>nouns. create_sql_query_chain w (x\<lparr>proper_nouns := Some nouns\<rparr>))"

text \<open>
  \<^verbatim>\<open>
  query = chain.invoke({"question": ...})
  print(query)
  db.run(query)
  \<close>
\<close>

definition chain_cells :: "world \<Rightarrow> string list \<Rightarrow> string \<Rightarrow> string traced" where
  "chain_cells w vector_db q =
     then_do
       (chain w vector_db \<lparr>question = q, table_names_to_use = None, proper_nouns = None\<rparr>)
       (execute w)"

subsection \<open>Two example runs\<close>

text \<open>
  \<open>chinook_extract\<close> answers the three queries of the proper-noun cell with a few rows of
  the Chinook database: the artist and the album both called \<^verbatim>\<open>Audioslave\<close>, and the
  albums \<^verbatim>\<open>Lost, Season 1\<close> and \<^verbatim>\<open>Lost, Season 2\<close>. \<open>sparse_rows\<close> answers every query
  with four rows that hold a \<^verbatim>\<open>NULL\<close>, an empty string, a zero, a string of digits
  and names with digits in them.
\<close>

definition chinook_extract :: world where
  "chinook_extract =
     \<lparr>category_llm = (\<lambda>q. Inr [\<lparr>name = ''Music''\<rparr>, \<lparr>name = ''Business''\<rparr>]),
      sql_llm = (\<lambda>p. Inr ''SELECT Name FROM Genre''),
      table_info = (\<lambda>names. Inr ''CREATE TABLE Genre (GenreId INTEGER, Name NVARCHAR(120))''),
      db_run = (\<lambda>query.
        if query = ''SELECT Name FROM Artist'' then Inr ''[('AC/DC',), ('Audioslave',)]''
        else if query = ''SELECT Title FROM Album'' then
          Inr ''[('Audioslave',), ('Lost, Season 1',), ('Lost, Season 2',)]''
        else if query = ''SELECT Name FROM Genre'' then Inr ''[('Rock',)]''
        else Inl DbError),
      literal_eval = (\<lambda>res.
        if res = ''[('AC/DC',), ('Audioslave',)]'' then
          Inr (PList [PTuple [PStr ''AC/DC''], PTuple [PStr ''Audioslave'']])
        else if res = ''[('Audioslave',), ('Lost, Season 1',), ('Lost, Season 2',)]'' then
          Inr (PList [PTuple [PStr ''Audioslave''], PTuple [PStr ''Lost, Season 1''],
                      PTuple [PStr ''Lost, Season 2'']])
        else if res = ''[('Rock',)]'' then Inr (PList [PTuple [PStr ''Rock'']])
        else Inl SyntaxError),
      embedding_distance = (\<lambda>q. Inr (\<lambda>text. real (length text))),
      set_order = (\<lambda>members. members)\<rparr>"

definition sparse_rows_text :: string where
  "sparse_rows_text =
     ''[('Lost, Season 1', None), ('' @ [CHR 0x27, CHR 0x27] @
     '', '1984'), ('2 Unlimited', 'Blink 182'), ('U2', 0)]''"

definition sparse_rows :: world where
  "sparse_rows =
     chinook_extract
       \<lparr>db_run := (\<lambda>query. Inr sparse_rows_text),
        literal_eval := (\<lambda>res.
          Inr (PList [PTuple [PStr ''Lost, Season 1'', PNone],
                      PTuple [PStr [], PStr ''1984''],
                      PTuple [PStr ''2 Unlimited'', PStr ''Blink 182''],
                      PTuple [PStr ''U2'', PInt 0]]))\<rparr>"

text \<open>\<open>failing_db\<close> is \<open>chinook_extract\<close> with a database that cannot be reached.\<close>

definition failing_db :: world where
  "failing_db = chinook_extract \<lparr>db_run := (\<lambda>query. Inl DbError)\<rparr>"

text \<open>
  \<open>failing_llm\<close> is \<open>chinook_extract\<close> with a chat model that fails when asked for a query.
  \<open>numbered_rows\<close> answers every query with the first row of the \<^verbatim>\<open>Artist\<close> table, id
  and name.
\<close>

definition failing_llm :: world where
  "failing_llm = chinook_extract \<lparr>sql_llm := (\<lambda>p. Inl ApiError)\<rparr>"

definition numbered_rows :: world where
  "numbered_rows =
     chinook_extract
       \<lparr>db_run := (\<lambda>query. Inr ''[(1, 'AC/DC')]''),
        literal_eval := (\<lambda>res. Inr (PList [PTuple [PInt 1, PStr ''AC/DC'']]))\<rparr>"



definition seventeen_nouns :: "string list" where
  "seventeen_nouns =
     [''Alanis Morissette'', ''Kiss'', ''Black Sabbath'', ''U2'', ''Audioslave'',
      ''System Of A Down'', ''AC/DC'', ''Led Zeppelin'', ''JET'', ''Aerosmith'',
      ''The Rolling Stones'', ''Accept'', ''Caetano Veloso'', ''Santana'', ''BackBeat'',
      ''Deep Purple'', ''Alice In Chains'']"

section \<open>Properties\<close>

subsection \<open>Table selection\<close>

lemma get_tables_loop_concat:
  "get_tables_loop categories tables =
     tables @ concat (map tables_of_category categories)"
  by (induction categories arbitrary: tables)
     (simp_all add: tables_of_category_def music_tables_def business_tables_def)

lemma get_tables_concat:
  "get_tables categories = concat (map tables_of_category categories)"
  by (simp add: get_tables_def get_tables_loop_concat)

lemma tables_of_category_usable:
  "set (tables_of_category category) \<subseteq> set usable_table_names"
  by (auto simp add: tables_of_category_def music_tables_def business_tables_def
      usable_table_names_def)

text \<open>
  Claim C2. Whatever list of categories \<open>get_tables\<close> is given, every string it returns
  is one of the eleven usable table names of the database.
\<close>

theorem get_tables_subset_usable:
  "set (get_tables categories) \<subseteq> set usable_table_names"
  using tables_of_category_usable by (auto simp add: get_tables_concat)

text \<open>
  Claim C8. \<open>get_tables\<close> returns the concatenation, in input order, of the seven music
  tables for each category named \<^verbatim>\<open>Music\<close> and the four business tables for each
  category named \<^verbatim>\<open>Business\<close>; any other name contributes nothing. It is a total
  function, returns the empty list on the empty list, and a category given twice
  gives its tables twice.
\<close>

theorem get_tables_exact:
  "get_tables categories = concat (map tables_of_category categories)
   \<and> get_tables [] = []
   \<and> get_tables (cs1 @ cs2) = get_tables cs1 @ get_tables cs2
   \<and> tables_of_category \<lparr>name = ''Music''\<rparr> =
       [''Album'', ''Artist'', ''Genre'', ''MediaType'', ''Playlist'', ''PlaylistTrack'',
        ''Track'']
   \<and> tables_of_category \<lparr>name = ''Business''\<rparr> =
       [''Customer'', ''Employee'', ''Invoice'', ''InvoiceLine'']
   \<and> (n \<noteq> ''Music'' \<and> n \<noteq> ''Business'' \<longrightarrow> tables_of_category \<lparr>name = n\<rparr> = [])"
  by (simp add: get_tables_concat tables_of_category_def music_tables_def
      business_tables_def)

theorem get_tables_exact_witness:
  "''Other'' \<noteq> ''Music'' \<and> ''Other'' \<noteq> ''Business''
   \<and> get_tables [\<lparr>name = ''Music''\<rparr>, \<lparr>name = ''Other''\<rparr>, \<lparr>name = ''Music''\<rparr>] =
       [''Album'', ''Artist'', ''Genre'', ''MediaType'', ''Playlist'', ''PlaylistTrack'',
        ''Track'', ''Album'', ''Artist'', ''Genre'', ''MediaType'', ''Playlist'',
        ''PlaylistTrack'', ''Track'']
   \<and> tables_of_category \<lparr>name = ''Other''\<rparr> = []"
  using get_tables_exact [of "[\<lparr>name = ''Music''\<rparr>, \<lparr>name = ''Other''\<rparr>, \<lparr>name = ''Music''\<rparr>]"
      "[]" "[]" "''Other''"]
  by (simp add: tables_of_category_def music_tables_def)

subsection \<open>Cleaning of column values\<close>

lemma digit_is_word: "is_digit c \<Longrightarrow> is_word c"
  by (simp add: is_digit_def is_word_def Let_def)

lemma space_not_word: "is_space c \<Longrightarrow> \<not> is_word c"
  by (auto simp add: is_space_def is_word_def Let_def)

lemma space_not_digit: "is_space c \<Longrightarrow> \<not> is_digit c"
  using digit_is_word space_not_word by blast

lemma match_at_prev_word [simp]: "match_at True s = None"
  by (simp add: match_at_def)

lemma match_at_nondigit [simp]: "\<not> is_digit c \<Longrightarrow> match_at p (c # cs) = None"
  by (simp add: match_at_def)

lemma match_at_SomeD:
  assumes "match_at p (c # cs) = Some rest"
  shows "\<not> p" "is_digit c" "rest = dropWhile is_digit cs"
    "rest = [] \<or> \<not> is_word (hd rest)"
  using assms by (auto simp add: match_at_def Let_def split: if_splits list.splits)

lemma match_at_NoneD:
  assumes "match_at False (c # cs) = None" "is_digit c"
  shows "\<exists>l r. dropWhile is_digit cs = l # r \<and> is_word l \<and> \<not> is_digit l"
proof -
  from assms obtain l r where lr: "dropWhile is_digit cs = l # r" "is_word l"
    by (auto simp add: match_at_def Let_def split: if_splits list.splits)
  from lr(1) have "\<not> is_digit l"
    using hd_dropWhile [of is_digit cs] by simp
  with lr show ?thesis by blast
qed

lemma re_sub_from_blocked_run:
  assumes "\<forall>d\<in>set ds. is_digit d" "is_word l"
  shows "re_sub_from True (ds @ l # r) = ds @ l # re_sub_from True r"
  using assms by (induction ds) (simp_all add: digit_is_word)

lemma match_at_blocked_run:
  assumes "\<forall>d\<in>set ds. is_digit d" "is_word l" "\<not> is_digit l"
  shows "match_at p (ds @ l # r) = None"
proof -
  have "takeWhile is_digit (ds @ l # r) = ds" "dropWhile is_digit (ds @ l # r) = l # r"
    using assms(1,3) by (simp_all add: takeWhile_append2 dropWhile_append2)
  then show ?thesis using assms(2) by (simp add: match_at_def)
qed

lemma re_search_from_nondigit_prev:
  "t = [] \<or> \<not> is_digit (hd t) \<Longrightarrow> re_search_from p t = re_search_from q t"
  by (cases t) auto

lemma re_sub_from_hd_nonword:
  "s = [] \<or> \<not> is_word (hd s) \<Longrightarrow> re_sub_from True s = [] \<or> \<not> is_digit (hd (re_sub_from True s))"
  by (cases s) (auto simp add: digit_is_word)

lemma no_token_after_re_sub: "\<not> re_search_from p (re_sub_from p s)"
proof (induction p s rule: re_sub_from.induct)
  case (1 prev)
  show ?case by simp
next
  case (2 prev c cs)
  show ?case
  proof (cases "match_at prev (c # cs)")
    case (Some rest)
    from match_at_SomeD [OF Some] have p: "\<not> prev" and r: "rest = [] \<or> \<not> is_word (hd rest)"
      by simp_all
    from "2.IH"(2) [OF Some] have "\<not> re_search_from True (re_sub_from True rest)" .
    moreover have "re_search_from prev (re_sub_from True rest)
        = re_search_from True (re_sub_from True rest)"
      by (rule re_search_from_nondigit_prev) (rule re_sub_from_hd_nonword [OF r])
    ultimately show ?thesis using Some by simp
  next
    case None
    from "2.IH"(1) [OF None]
    have ih: "\<not> re_search_from (is_word c) (re_sub_from (is_word c) cs)" .
    have "match_at prev (c # re_sub_from (is_word c) cs) = None"
    proof (cases "prev \<or> \<not> is_digit c")
      case True
      then show ?thesis by auto
    next
      case False
      then have np: "\<not> prev" and dc: "is_digit c" by simp_all
      from None np have "match_at False (c # cs) = None" by simp
      from match_at_NoneD [OF this dc] obtain l r
        where lr: "dropWhile is_digit cs = l # r" "is_word l" "\<not> is_digit l" by blast
      have cs: "cs = takeWhile is_digit cs @ l # r"
        using takeWhile_dropWhile_id [of is_digit cs] lr(1) by simp
      have "re_sub_from True cs = takeWhile is_digit cs @ l # re_sub_from True r"
        using re_sub_from_blocked_run [of "takeWhile is_digit cs" l r] lr(2) cs
        by (metis set_takeWhileD)
      moreover have "match_at prev (c # takeWhile is_digit cs @ l # re_sub_from True r) = None"
        using match_at_blocked_run [of "c # takeWhile is_digit cs" l prev "re_sub_from True r"]
          lr(2,3) dc
        by (auto dest: set_takeWhileD)
      ultimately show ?thesis using dc digit_is_word by simp
    qed
    with ih None show ?thesis by simp
  qed
qed


lemma no_token_drop_leading:
  "\<not> re_search_from False t \<Longrightarrow> \<not> re_search_from False (dropWhile is_space t)"
  by (induction t) (auto simp add: space_not_word)

lemma match_at_append_spaces:
  assumes "match_at p u \<noteq> None" "\<forall>x\<in>set ws. is_space x"
  shows "match_at p (u @ ws) \<noteq> None"
proof (cases "dropWhile is_digit u")
  case Nil
  then have all: "\<forall>x\<in>set u. is_digit x"
    by (simp add: dropWhile_eq_Nil_conv)
  have nd: "\<forall>x\<in>set ws. \<not> is_digit x"
    using assms(2) space_not_digit by blast
  have "takeWhile is_digit ws = []" "dropWhile is_digit ws = ws"
    using nd by (cases ws; simp)+
  then have "takeWhile is_digit (u @ ws) = u" "dropWhile is_digit (u @ ws) = ws"
    using all by (simp_all add: takeWhile_append2 dropWhile_append2)
  moreover have "ws = [] \<or> \<not> is_word (hd ws)"
    using assms(2) space_not_word by (cases ws) auto
  ultimately show ?thesis
    using assms(1) Nil by (auto simp add: match_at_def Let_def split: if_splits list.splits)
next
  case (Cons l r)
  then have "\<not> is_digit l"
    using hd_dropWhile [of is_digit u] by simp
  have u: "u = takeWhile is_digit u @ l # r"
    using takeWhile_dropWhile_id [of is_digit u] Cons by simp
  then have lin: "l \<in> set u"
    by (metis in_set_conv_decomp)
  have "takeWhile is_digit (u @ ws) = takeWhile is_digit u"
    "dropWhile is_digit (u @ ws) = l # r @ ws"
    using takeWhile_append1 [of l u is_digit ws] dropWhile_append1 [of l u is_digit ws]
      lin \<open>\<not> is_digit l\<close> Cons
    by simp_all
  then show ?thesis
    using assms(1) Cons by (auto simp add: match_at_def Let_def split: if_splits)
qed

lemma re_search_from_append_spaces:
  "re_search_from p u \<Longrightarrow> \<forall>x\<in>set ws. is_space x \<Longrightarrow> re_search_from p (u @ ws)"
proof (induction u arbitrary: p)
  case Nil
  then show ?case by simp
next
  case (Cons c u)
  then show ?case
    using match_at_append_spaces [of p "c # u" ws] by auto
qed

lemma no_token_drop_trailing:
  assumes "\<not> re_search_from p t"
  shows "\<not> re_search_from p (rev (dropWhile is_space (rev t)))"
proof
  let ?u = "rev (dropWhile is_space (rev t))" and ?ws = "rev (takeWhile is_space (rev t))"
  assume "re_search_from p ?u"
  moreover have "\<forall>x\<in>set ?ws. is_space x"
    by (auto dest: set_takeWhileD)
  ultimately have "re_search_from p (?u @ ?ws)"
    by (rule re_search_from_append_spaces)
  moreover have "?u @ ?ws = t"
    by (metis rev_append rev_rev_ident takeWhile_dropWhile_id)
  ultimately show False using assms by simp
qed

lemma no_token_strip: "\<not> has_digit_token s \<Longrightarrow> \<not> has_digit_token (strip s)"
  unfolding has_digit_token_def strip_def
  by (intro no_token_drop_trailing no_token_drop_leading)

lemma no_token_clean: "\<not> has_digit_token (strip (re_sub_digits s))"
  by (rule no_token_strip) (simp add: has_digit_token_def re_sub_digits_def no_token_after_re_sub)

lemma last_dropWhile: "dropWhile P xs \<noteq> [] \<Longrightarrow> last (dropWhile P xs) = last xs"
  by (induction xs) (auto split: if_splits)

lemma strip_no_leading_space: "\<not> leading_space (strip s)"
proof
  let ?d = "dropWhile is_space s" and ?x = "dropWhile is_space (rev (dropWhile is_space s))"
  assume "leading_space (strip s)"
  then have ne: "?x \<noteq> []" and sp: "is_space (last ?x)"
    by (simp_all add: leading_space_def strip_def hd_rev)
  from ne have "last ?x = last (rev ?d)" by (rule last_dropWhile)
  moreover from ne have dne: "?d \<noteq> []"
    by (metis dropWhile.simps(1) rev.simps(1))
  ultimately have "last ?x = hd ?d" by (simp add: last_rev)
  moreover have "\<not> is_space (hd ?d)" using dne by (rule hd_dropWhile)
  ultimately show False using sp by simp
qed

lemma strip_no_trailing_space: "\<not> trailing_space (strip s)"
proof
  let ?x = "dropWhile is_space (rev (dropWhile is_space s))"
  assume "trailing_space (strip s)"
  then have ne: "?x \<noteq> []" and sp: "is_space (hd ?x)"
    by (simp_all add: trailing_space_def strip_def last_rev)
  from ne have "\<not> is_space (hd ?x)" by (rule hd_dropWhile)
  with sp show False by simp
qed

lemma re_sub_from_all_digits:
  "d \<noteq> [] \<Longrightarrow> \<forall>c\<in>set d. is_digit c \<Longrightarrow> re_sub_from False d = []"
proof (cases d)
  case Nil
  then show "d \<noteq> [] \<Longrightarrow> ?thesis" by simp
next
  case (Cons c cs)
  assume "\<forall>c\<in>set d. is_digit c"
  then have "takeWhile is_digit d = d" "dropWhile is_digit d = []"
    by (simp_all add: takeWhile_eq_all_conv dropWhile_eq_Nil_conv)
  then have "match_at False (c # cs) = Some []"
    using Cons by (simp add: match_at_def)
  then show ?thesis using Cons by simp
qed

lemma clean_digits_empty:
  "d \<noteq> [] \<Longrightarrow> \<forall>c\<in>set d. is_digit c \<Longrightarrow> strip (re_sub_digits d) = []"
  by (simp add: re_sub_digits_def re_sub_from_all_digits strip_def)

lemma re_sub_from_no_token: "\<not> re_search_from p s \<Longrightarrow> re_sub_from p s = s"
  by (induction p s rule: re_sub_from.induct) auto

lemma match_at_append_nonword:
  assumes "a \<noteq> []" "\<not> is_word (last a)"
  shows "match_at p (a @ t) = map_option (\<lambda>r. r @ t) (match_at p a)"
proof -
  have nd: "\<not> is_digit (last a)" using assms(2) digit_is_word by blast
  have lin: "last a \<in> set a" using assms(1) by simp
  have tw: "takeWhile is_digit (a @ t) = takeWhile is_digit a"
    using takeWhile_append1 [of "last a" a is_digit t] lin nd by simp
  have dw: "dropWhile is_digit (a @ t) = dropWhile is_digit a @ t"
    using dropWhile_append1 [of "last a" a is_digit t] lin nd by simp
  have ne: "dropWhile is_digit a \<noteq> []"
    using lin nd by (auto simp add: dropWhile_eq_Nil_conv)
  then obtain c r where cr: "dropWhile is_digit a = c # r" by (cases "dropWhile is_digit a") auto
  show ?thesis
    by (simp add: match_at_def tw dw cr)
qed

lemma re_sub_from_append_nonword:
  "a \<noteq> [] \<Longrightarrow> \<not> is_word (last a) \<Longrightarrow>
     re_sub_from p (a @ t) = re_sub_from p a @ re_sub_from False t"
proof (induction p a rule: re_sub_from.induct)
  case (1 prev)
  then show ?case by simp
next
  case (2 prev c cs)
  have m: "match_at prev ((c # cs) @ t) = map_option (\<lambda>r. r @ t) (match_at prev (c # cs))"
    using "2.prems" by (rule match_at_append_nonword)
  show ?case
  proof (cases "match_at prev (c # cs)")
    case None
    show ?thesis
    proof (cases "cs = []")
      case True
      with "2.prems" have "\<not> is_word c" by simp
      with True None m show ?thesis by simp
    next
      case False
      with "2.prems" have "\<not> is_word (last cs)" by simp
      from "2.IH"(1) [OF None False this] None m show ?thesis by simp
    qed
  next
    case (Some rest)
    from match_at_SomeD(3) [OF Some] have r: "rest = dropWhile is_digit cs" .
    have nd: "\<not> is_digit (last (c # cs))" using "2.prems"(2) digit_is_word by blast
    have "is_digit c" using match_at_SomeD(2) [OF Some] .
    with nd have csne: "cs \<noteq> []" by auto
    with nd have "last cs \<in> set cs" "\<not> is_digit (last cs)" by auto
    then have rne: "rest \<noteq> []" unfolding r by (auto simp add: dropWhile_eq_Nil_conv)
    have "last rest = last cs"
      unfolding r using rne r by (simp add: last_dropWhile)
    then have "\<not> is_word (last rest)" using "2.prems"(2) csne by simp
    from "2.IH"(2) [OF Some rne this] Some m show ?thesis by simp
  qed
qed

lemma re_sub_from_prev_nondigit:
  "b = [] \<or> \<not> is_digit (hd b) \<Longrightarrow> re_sub_from p b = re_sub_from q b"
  by (cases b) auto

lemma match_at_run:
  assumes "d \<noteq> []" "list_all is_digit d" "b = [] \<or> \<not> is_word (hd b)"
  shows "match_at False (d @ b) = Some b"
proof -
  have all: "\<forall>x\<in>set d. is_digit x" using assms(2) by (simp add: list_all_iff)
  have bd: "b = [] \<or> \<not> is_digit (hd b)" using assms(3) digit_is_word by blast
  have "takeWhile is_digit b = []" "dropWhile is_digit b = b"
    using bd by (cases b; simp)+
  then have tw: "takeWhile is_digit (d @ b) = d" and dw: "dropWhile is_digit (d @ b) = b"
    using all by (simp_all add: takeWhile_append2 dropWhile_append2)
  show ?thesis
    unfolding match_at_def Let_def tw dw using assms(1,3) by (cases b) simp_all
qed

lemma re_sub_from_run:
  assumes "d \<noteq> []" "list_all is_digit d" "b = [] \<or> \<not> is_word (hd b)"
  shows "re_sub_from False (d @ b) = re_sub_from False b"
proof -
  have bd: "b = [] \<or> \<not> is_digit (hd b)" using assms(3) digit_is_word by blast
  have m: "match_at False (d @ b) = Some b" using assms by (rule match_at_run)
  obtain c cs where d: "d = c # cs" using assms(1) by (cases d) auto
  have "re_sub_from False (d @ b) = re_sub_from True b"
    using m unfolding d by simp
  also have "\<dots> = re_sub_from False b"
    using bd by (rule re_sub_from_prev_nondigit)
  finally show ?thesis .
qed

lemma re_sub_digits_standalone:
  assumes "standalone_run a d b"
  shows "re_sub_digits (a @ d @ b) = re_sub_digits a @ re_sub_digits b"
proof -
  from assms have d: "d \<noteq> []" "list_all is_digit d" "b = [] \<or> \<not> is_word (hd b)"
    and a: "a = [] \<or> \<not> is_word (last a)"
    by (simp_all add: standalone_run_def)
  have run: "re_sub_from False (d @ b) = re_sub_from False b"
    using d by (rule re_sub_from_run)
  show ?thesis
  proof (cases "a = []")
    case True
    then show ?thesis by (simp add: re_sub_digits_def run)
  next
    case False
    with a have "\<not> is_word (last a)" by simp
    from re_sub_from_append_nonword [OF False this, of False "d @ b"] run
    show ?thesis by (simp add: re_sub_digits_def)
  qed
qed

lemma re_search_from_append_left:
  "re_search_from (if a = [] then p else is_word (last a)) t \<Longrightarrow> re_search_from p (a @ t)"
  by (induction a arbitrary: p) (auto split: if_splits)

lemma standalone_run_found:
  assumes "standalone_run a d b"
  shows "has_digit_token (a @ d @ b)"
proof -
  from assms have d: "d \<noteq> []" "list_all is_digit d" "b = [] \<or> \<not> is_word (hd b)"
    and a: "a = [] \<or> \<not> is_word (last a)"
    by (simp_all add: standalone_run_def)
  have m: "match_at False (d @ b) = Some b" using d by (rule match_at_run)
  obtain c cs where dc: "d = c # cs" using d(1) by (cases d) auto
  have "re_search_from False (d @ b)" using m unfolding dc by simp
  then have "re_search_from (if a = [] then False else is_word (last a)) (d @ b)"
    using a by auto
  then show ?thesis
    unfolding has_digit_token_def by (rule re_search_from_append_left)
qed

lemma re_search_from_decompose:
  "re_search_from p s \<Longrightarrow>
     \<exists>a d b. s = a @ d @ b \<and> d \<noteq> [] \<and> list_all is_digit d
       \<and> (if a = [] then \<not> p else \<not> is_word (last a)) \<and> (b = [] \<or> \<not> is_word (hd b))"
proof (induction s arbitrary: p)
  case Nil
  then show ?case by simp
next
  case (Cons c cs)
  show ?case
  proof (cases "match_at p (c # cs)")
    case (Some rest)
    define dd where "dd = takeWhile is_digit (c # cs)"
    from match_at_SomeD [OF Some] have np: "\<not> p" and dc: "is_digit c"
      and r: "rest = dropWhile is_digit cs" and rb: "rest = [] \<or> \<not> is_word (hd rest)"
      by simp_all
    have 1: "c # cs = [] @ dd @ rest" using r dc by (simp add: dd_def)
    have 2: "dd \<noteq> []" using dc by (simp add: dd_def)
    have 3: "list_all is_digit dd"
      by (auto simp add: dd_def list_all_iff dest: set_takeWhileD)
    have "c # cs = [] @ dd @ rest \<and> dd \<noteq> [] \<and> list_all is_digit dd
        \<and> (if [] = ([]::string) then \<not> p else \<not> is_word (last [])) \<and> (rest = [] \<or> \<not> is_word (hd rest))"
      using 1 2 3 np rb by simp
    then show ?thesis
      by (intro exI [of _ "[]"] exI [of _ dd] exI [of _ rest])
  next
    case None
    with Cons.prems have "re_search_from (is_word c) cs" by simp
    from Cons.IH [OF this] obtain a d b where s: "cs = a @ d @ b" and d: "d \<noteq> []"
      "list_all is_digit d" and a: "if a = [] then \<not> is_word c else \<not> is_word (last a)"
      and b: "b = [] \<or> \<not> is_word (hd b)" by blast
    have "c # cs = (c # a) @ d @ b" using s by simp
    moreover have "\<not> is_word (last (c # a))" using a by (auto split: if_splits)
    ultimately have "c # cs = (c # a) @ d @ b \<and> d \<noteq> [] \<and> list_all is_digit d
        \<and> (if c # a = [] then \<not> p else \<not> is_word (last (c # a))) \<and> (b = [] \<or> \<not> is_word (hd b))"
      using d b by simp
    then show ?thesis
      by (intro exI [of _ "c # a"] exI [of _ d] exI [of _ b])
  qed
qed

lemma has_digit_token_iff:
  "has_digit_token s \<longleftrightarrow> (\<exists>a d b. s = a @ d @ b \<and> standalone_run a d b)"
proof
  assume "has_digit_token s"
  then have "re_search_from False s" by (simp add: has_digit_token_def)
  from re_search_from_decompose [OF this] obtain a d b where "s = a @ d @ b" "d \<noteq> []"
    "list_all is_digit d" "if a = [] then \<not> False else \<not> is_word (last a)"
    "b = [] \<or> \<not> is_word (hd b)" by blast
  then have "s = a @ d @ b \<and> standalone_run a d b"
    by (auto simp add: standalone_run_def split: if_splits)
  then show "\<exists>a d b. s = a @ d @ b \<and> standalone_run a d b" by blast
next
  assume "\<exists>a d b. s = a @ d @ b \<and> standalone_run a d b"
  then show "has_digit_token s" using standalone_run_found by blast
qed

lemma re_sub_digits_unchanged:
  "\<not> (\<exists>a d b. s = a @ d @ b \<and> standalone_run a d b) \<Longrightarrow> re_sub_digits s = s"
  unfolding has_digit_token_iff [symmetric]
  by (simp add: has_digit_token_def re_sub_digits_def re_sub_from_no_token)

lemma strip_decompose:
  "\<exists>l r. s = l @ strip s @ r \<and> list_all is_space l \<and> list_all is_space r"
proof -
  let ?l = "takeWhile is_space s" and ?m = "dropWhile is_space s"
  let ?r = "rev (takeWhile is_space (rev ?m))"
  have "rev ?m = takeWhile is_space (rev ?m) @ dropWhile is_space (rev ?m)" by simp
  then have "?m = strip s @ ?r"
    unfolding strip_def by (metis rev_append rev_rev_ident)
  then have "s = ?l @ strip s @ ?r"
    by (metis takeWhile_dropWhile_id)
  moreover have "list_all is_space ?l" "list_all is_space ?r"
    by (auto simp add: list_all_iff dest: set_takeWhileD)
  ultimately show ?thesis by blast
qed

lemma flatten_truthy_tuples:
  "flatten_truthy w (map PTuple tuples) = Inr (filter truthy (concat tuples))"
  by (induction tuples) simp_all

lemma clean_all_strings:
  "clean_all (map PStr kept) = Inr (map (\<lambda>s. strip (re_sub_digits s)) kept)"
  by (induction kept) simp_all

lemma clean_all_non_string:
  "\<exists>v\<in>set els. \<forall>s. v \<noteq> PStr s \<Longrightarrow> clean_all els = Inl TypeError"
proof (induction els)
  case Nil
  then show ?case by simp
next
  case (Cons el els)
  show ?case
  proof (cases "\<exists>s. el = PStr s")
    case True
    then obtain s where el: "el = PStr s" by blast
    with Cons.prems have "\<exists>v\<in>set els. \<forall>s. v \<noteq> PStr s" by auto
    then have "clean_all els = Inl TypeError" by (rule Cons.IH)
    with el show ?thesis by simp
  next
    case False
    then have "clean el = Inl TypeError" by (cases el) simp_all
    then show ?thesis by simp
  qed
qed

lemma clean_all_Inr:
  "clean_all els = Inr out \<Longrightarrow>
     \<exists>kept. els = map PStr kept \<and> out = map (\<lambda>s. strip (re_sub_digits s)) kept"
proof (induction els arbitrary: out)
  case Nil
  then show ?case by simp
next
  case (Cons el els)
  from Cons.prems obtain s ss where s: "clean el = Inr s" and ss: "clean_all els = Inr ss"
    and out: "out = s # ss"
    by (auto split: sum.splits)
  from s obtain x where el: "el = PStr x" "s = strip (re_sub_digits x)"
    by (cases el) simp_all
  from Cons.IH [OF ss] obtain kept where "els = map PStr kept"
    "ss = map (\<lambda>s. strip (re_sub_digits s)) kept" by blast
  with el out have "el # els = map PStr (x # kept) \<and> out = map (\<lambda>s. strip (re_sub_digits s)) (x # kept)"
    by simp
  then show ?case by (intro exI [of _ "x # kept"])
qed

text \<open>
  Claim C9. When \<^verbatim>\<open>db.run\<close> returns a string that parses as a list of tuples,
  \<open>query_as_list\<close> first drops the falsy elements of the rows, then erases the
  standalone runs of digits of each remaining string and strips it (and raises
  \<^verbatim>\<open>TypeError\<close> if a remaining element is not a string). So every string it returns
  has no leading or trailing whitespace and no standalone run of digits, and a
  non-empty string of digits passes the filter and is returned as the empty string.
  \<^verbatim>\<open>None\<close> and the empty string are falsy, any other string is truthy.
  What is erased and what is kept: a string without a standalone run of digits is left
  as it is, and erasing in \<open>pre @ run @ post\<close>, where \<open>run\<close> is a standalone run of
  digits, is erasing in \<open>pre\<close> and in \<open>post\<close> and dropping \<open>run\<close>; \<open>strip\<close> removes
  whitespace at the two ends and nothing else.
\<close>

theorem query_as_list_cleans:
  assumes "db_run w query = Inr res"
    and "literal_eval w res = Inr (PList (map PTuple tuples))"
  shows "(filter truthy (concat tuples) = map PStr kept \<longrightarrow>
            query_as_list w query = Inr (map (\<lambda>s. strip (re_sub_digits s)) kept))
       \<and> ((\<exists>v\<in>set (filter truthy (concat tuples)). \<forall>s. v \<noteq> PStr s) \<longrightarrow>
            query_as_list w query = Inl TypeError)
       \<and> (query_as_list w query = Inr out \<longrightarrow>
            (\<forall>s\<in>set out. \<not> leading_space s \<and> \<not> trailing_space s \<and> \<not> has_digit_token s))
       \<and> (query_as_list w query = Inr out \<and> PStr d \<in> set (concat tuples) \<and> d \<noteq> []
            \<and> (\<forall>c\<in>set d. is_digit c) \<longrightarrow>
            PStr d \<in> set (filter truthy (concat tuples)) \<and> [] \<in> set out)
       \<and> (\<not> (\<exists>a r b. t = a @ r @ b \<and> standalone_run a r b) \<longrightarrow> re_sub_digits t = t)
       \<and> (standalone_run pre run post \<longrightarrow>
            re_sub_digits (pre @ run @ post) = re_sub_digits pre @ re_sub_digits post)
       \<and> (has_digit_token t \<longleftrightarrow> (\<exists>a r b. t = a @ r @ b \<and> standalone_run a r b))
       \<and> (\<exists>l r. t = l @ strip t @ r \<and> list_all is_space l \<and> list_all is_space r)
       \<and> \<not> leading_space (strip t) \<and> \<not> trailing_space (strip t)
       \<and> \<not> truthy PNone \<and> \<not> truthy (PStr []) \<and> (u \<noteq> [] \<longrightarrow> truthy (PStr u))"
proof -
  have q: "query_as_list w query = clean_all (filter truthy (concat tuples))"
    using assms by (simp add: query_as_list_def flatten_truthy_tuples)
  have c1: "filter truthy (concat tuples) = map PStr kept \<longrightarrow>
      query_as_list w query = Inr (map (\<lambda>s. strip (re_sub_digits s)) kept)"
    by (simp add: q clean_all_strings)
  have c2: "(\<exists>v\<in>set (filter truthy (concat tuples)). \<forall>s. v \<noteq> PStr s) \<longrightarrow>
      query_as_list w query = Inl TypeError"
    unfolding q using clean_all_non_string [of "filter truthy (concat tuples)"] by blast
  have c3: "query_as_list w query = Inr out \<longrightarrow>
      (\<forall>s\<in>set out. \<not> leading_space s \<and> \<not> trailing_space s \<and> \<not> has_digit_token s)"
  proof
    assume "query_as_list w query = Inr out"
    then obtain ks where "out = map (\<lambda>s. strip (re_sub_digits s)) ks"
      unfolding q using clean_all_Inr by blast
    then show "\<forall>s\<in>set out. \<not> leading_space s \<and> \<not> trailing_space s \<and> \<not> has_digit_token s"
      by (auto simp add: strip_no_leading_space strip_no_trailing_space no_token_clean)
  qed
  have c4: "query_as_list w query = Inr out \<and> PStr d \<in> set (concat tuples) \<and> d \<noteq> []
      \<and> (\<forall>c\<in>set d. is_digit c) \<longrightarrow>
      PStr d \<in> set (filter truthy (concat tuples)) \<and> [] \<in> set out"
  proof
    assume a: "query_as_list w query = Inr out \<and> PStr d \<in> set (concat tuples) \<and> d \<noteq> []
      \<and> (\<forall>c\<in>set d. is_digit c)"
    then have mem: "PStr d \<in> set (filter truthy (concat tuples))" by simp
    from a obtain ks where ks: "filter truthy (concat tuples) = map PStr ks"
      "out = map (\<lambda>s. strip (re_sub_digits s)) ks"
      unfolding q using clean_all_Inr by blast
    from mem ks(1) have "d \<in> set ks" by auto
    then have "strip (re_sub_digits d) \<in> set out" using ks(2) by simp
    moreover have "strip (re_sub_digits d) = []"
      using a by (simp add: clean_digits_empty)
    ultimately show "PStr d \<in> set (filter truthy (concat tuples)) \<and> [] \<in> set out"
      using mem by simp
  qed
  have c5: "\<not> (\<exists>a r b. t = a @ r @ b \<and> standalone_run a r b) \<longrightarrow> re_sub_digits t = t"
    using re_sub_digits_unchanged [of t] by blast
  have c6: "standalone_run pre run post \<longrightarrow>
      re_sub_digits (pre @ run @ post) = re_sub_digits pre @ re_sub_digits post"
    using re_sub_digits_standalone by blast
  have c7: "has_digit_token t \<longleftrightarrow> (\<exists>a r b. t = a @ r @ b \<and> standalone_run a r b)"
    by (rule has_digit_token_iff)
  have c8: "\<exists>l r. t = l @ strip t @ r \<and> list_all is_space l \<and> list_all is_space r"
    by (rule strip_decompose)
  have c9: "\<not> leading_space (strip t)" "\<not> trailing_space (strip t)"
    by (rule strip_no_leading_space, rule strip_no_trailing_space)
  show ?thesis
    apply (intro conjI)
    using c1 apply assumption
    using c2 apply assumption
    using c3 apply assumption
    using c4 apply assumption
    using c5 apply assumption
    using c6 apply assumption
    using c7 apply assumption
    using c8 apply assumption
    using c9(1) apply assumption
    using c9(2) apply assumption
    apply simp
    apply simp
    apply simp
    done
qed

theorem query_as_list_cleans_witness:
  "db_run sparse_rows ''SELECT Title, Year FROM Album'' = Inr sparse_rows_text
   \<and> literal_eval sparse_rows sparse_rows_text =
     Inr (PList (map PTuple [[PStr ''Lost, Season 1'', PNone], [PStr [], PStr ''1984''],
        [PStr ''2 Unlimited'', PStr ''Blink 182''], [PStr ''U2'', PInt 0]]))
   \<and> query_as_list sparse_rows ''SELECT Title, Year FROM Album'' =
     Inr [''Lost, Season'', [], ''Unlimited'', ''Blink'', ''U2'']
   \<and> standalone_run [] ''2'' '' Unlimited''
   \<and> re_sub_digits ''2 Unlimited'' = '' Unlimited''
   \<and> re_sub_digits ''U2'' = ''U2''
   \<and> \<not> has_digit_token ''U2''
   \<and> \<not> trailing_space ''Lost, Season''
   \<and> PStr ''1984'' \<in> set (filter truthy [PStr ''Lost, Season 1'', PNone, PStr [], PStr ''1984''])"
  using query_as_list_cleans [where w = sparse_rows
      and query = "''SELECT Title, Year FROM Album''" and res = sparse_rows_text
      and tuples = "[[PStr ''Lost, Season 1'', PNone], [PStr [], PStr ''1984''],
        [PStr ''2 Unlimited'', PStr ''Blink 182''], [PStr ''U2'', PInt 0]]"
      and kept = "[''Lost, Season 1'', ''1984'', ''2 Unlimited'', ''Blink 182'', ''U2'']"
      and out = "[''Lost, Season'', [], ''Unlimited'', ''Blink'', ''U2'']"
      and d = "''1984''" and pre = "[]" and run = "''2''" and post = "'' Unlimited''"
      and t = "''U2''"]
  by (simp add: sparse_rows_def chinook_extract_def re_sub_digits_def strip_def
      match_at_def is_digit_def is_word_def is_space_def has_digit_token_def
      trailing_space_def standalone_run_def)

text \<open>
  Claim C3. The list \<^verbatim>\<open>proper_nouns\<close> handed to the vector store is meant to hold
  distinct values. The cell does not deliver that: on \<open>chinook_extract\<close> it runs without
  an exception and binds \<^verbatim>\<open>proper_nouns\<close> to a list with duplicates, since
  \<open>query_as_list\<close> and the cell concatenate what the three queries return and remove
  nothing, and erasing the digits makes two album titles equal.
\<close>

theorem proper_nouns_not_distinct:
  "proper_nouns_cell chinook_extract None =
     (None, Some [''AC/DC'', ''Audioslave'', ''Audioslave'', ''Lost, Season'', ''Lost, Season'',
                  ''Rock''])
   \<and> \<not> distinct [''AC/DC'', ''Audioslave'', ''Audioslave'', ''Lost, Season'', ''Lost, Season'',
                  ''Rock'']"
  by (simp add: proper_nouns_cell_def seq_def assign_proper_nouns_def
      extend_proper_nouns_def query_as_list_def chinook_extract_def
      re_sub_digits_def strip_def match_at_def is_digit_def is_word_def is_space_def)

subsection \<open>Errors\<close>

lemma then_do_Inl [simp]: "then_do (t, Inl e) f = (t, Inl e)"
  by (simp add: then_do_def)

lemma then_do_Inr [simp]: "then_do (t, Inr v) f = (t @ fst (f v), snd (f v))"
  by (simp add: then_do_def split: prod.splits)

lemma py_iter_error: "py_iter w v = Inl e \<Longrightarrow> e = TypeError"
  by (cases v) simp_all

lemma flatten_truthy_rows:
  "map (py_iter w) subs = map Inr rows \<Longrightarrow>
     flatten_truthy w subs = Inr (filter truthy (concat rows))"
proof (induction subs arbitrary: rows)
  case Nil
  then show ?case by simp
next
  case (Cons sub subs)
  then obtain r rs where rows: "rows = r # rs" and r: "py_iter w sub = Inr r"
    and rs: "map (py_iter w) subs = map Inr rs"
    by (cases rows) auto
  from Cons.IH [OF rs] r show ?case by (simp add: rows)
qed

lemma flatten_truthy_fail:
  "sub \<in> set subs \<Longrightarrow> py_iter w sub = Inl e \<Longrightarrow> flatten_truthy w subs = Inl TypeError"
proof (induction subs)
  case Nil
  then show ?case by simp
next
  case (Cons a subs)
  show ?case
  proof (cases "py_iter w a")
    case (Inl e')
    then show ?thesis using py_iter_error [OF Inl] by simp
  next
    case (Inr els)
    with Cons.prems have "sub \<in> set subs" by auto
    from Cons.IH [OF this Cons.prems(2)] Inr show ?thesis by simp
  qed
qed

lemma flatten_truthy_Inr:
  "flatten_truthy w subs = Inr els \<Longrightarrow>
     \<exists>rows. map (py_iter w) subs = map Inr rows \<and> els = filter truthy (concat rows)"
proof (induction subs arbitrary: els)
  case Nil
  then show ?case by simp
next
  case (Cons sub subs)
  from Cons.prems obtain r rest where r: "py_iter w sub = Inr r"
    and rest: "flatten_truthy w subs = Inr rest" and els: "els = filter truthy r @ rest"
    by (auto split: sum.splits)
  from Cons.IH [OF rest] obtain rs where rs: "map (py_iter w) subs = map Inr rs"
    "rest = filter truthy (concat rs)" by blast
  have "map (py_iter w) (sub # subs) = map Inr (r # rs) \<and> els = filter truthy (concat (r # rs))"
    using r rs els by simp
  then show ?case by (intro exI [of _ "r # rs"])
qed

text \<open>
  Claim C4. Nothing is caught locally. \<open>query_as_list\<close> raises what \<^verbatim>\<open>db.run\<close> or
  \<^verbatim>\<open>ast.literal_eval\<close> raises, and the \<^verbatim>\<open>TypeError\<close> of iterating over a value that is not
  iterable or of \<^verbatim>\<open>re.sub\<close> on a value that is not a string; it returns a list only
  when every one of these calls has returned. A statement of the proper-noun cell whose
  call raises leaves the binding of \<^verbatim>\<open>proper_nouns\<close> as it found it, and the cell stops
  there with that exception. In \<open>full_chain\<close> and \<open>chain\<close> a failure of the category model,
  of the embedding API, of the schema lookup or of the SQL model is the result of the
  chain, which returns a query only when each call has returned; a failure of the chain
  or of \<^verbatim>\<open>db.run\<close> is the result of the cells that run the query.
\<close>

theorem errors_propagate:
  "(db_run w query = Inl e \<longrightarrow> query_as_list w query = Inl e)
   \<and> (db_run w query = Inr res \<and> literal_eval w res = Inl e \<longrightarrow> query_as_list w query = Inl e)
   \<and> (db_run w query = Inr res \<and> literal_eval w res = Inr v \<and> py_iter w v = Inl e \<longrightarrow>
        query_as_list w query = Inl e)
   \<and> (db_run w query = Inr res \<and> literal_eval w res = Inr v \<and> py_iter w v = Inr subs
        \<and> sub \<in> set subs \<and> py_iter w sub = Inl e \<longrightarrow>
        query_as_list w query = Inl e)
   \<and> (db_run w query = Inr res \<and> literal_eval w res = Inr v \<and> py_iter w v = Inr subs
        \<and> map (py_iter w) subs = map Inr rows
        \<and> el \<in> set (concat rows) \<and> truthy el \<and> (\<forall>s. el \<noteq> PStr s) \<longrightarrow>
        query_as_list w query = Inl TypeError)
   \<and> (query_as_list w query = Inr out \<longrightarrow>
        (\<exists>res v subs rows kept. db_run w query = Inr res \<and> literal_eval w res = Inr v
           \<and> py_iter w v = Inr subs \<and> map (py_iter w) subs = map Inr rows
           \<and> filter truthy (concat rows) = map PStr kept
           \<and> out = map (\<lambda>s. strip (re_sub_digits s)) kept))
   \<and> (query_as_list w query = Inl e \<longrightarrow> assign_proper_nouns w query b = (Some e, b))
   \<and> (query_as_list w query = Inl e \<longrightarrow>
        extend_proper_nouns w query (Some old) = (Some e, Some old))
   \<and> (fst (extend_proper_nouns w query b) \<noteq> None \<longrightarrow> snd (extend_proper_nouns w query b) = b)
   \<and> (query_as_list w ''SELECT Name FROM Artist'' = Inl e \<longrightarrow>
        proper_nouns_cell w b = (Some e, b))
   \<and> (query_as_list w ''SELECT Name FROM Artist'' = Inr artists
        \<and> query_as_list w ''SELECT Title FROM Album'' = Inl e \<longrightarrow>
        proper_nouns_cell w b = (Some e, Some artists))
   \<and> (query_as_list w ''SELECT Name FROM Artist'' = Inr artists
        \<and> query_as_list w ''SELECT Title FROM Album'' = Inr albums
        \<and> query_as_list w ''SELECT Name FROM Genre'' = Inl e \<longrightarrow>
        proper_nouns_cell w b = (Some e, Some (artists @ albums)))
   \<and> (category_llm w (question x) = Inl e \<longrightarrow>
        snd (table_chain w x) = Inl e \<and> snd (full_chain w x) = Inl e)
   \<and> (category_llm w (question x) = Inr categories
        \<and> table_info w (Some (get_tables categories)) = Inl e \<longrightarrow>
        snd (full_chain w x) = Inl e)
   \<and> (category_llm w (question x) = Inr categories
        \<and> table_info w (Some (get_tables categories)) = Inr info
        \<and> sql_llm w \<lparr>p_input = question x, p_table_info = info,
                       p_proper_nouns = proper_nouns x\<rparr> = Inl e \<longrightarrow>
        snd (full_chain w x) = Inl e)
   \<and> (snd (full_chain w x) = Inr sql \<longrightarrow>
        (\<exists>categories info. category_llm w (question x) = Inr categories
           \<and> table_info w (Some (get_tables categories)) = Inr info
           \<and> sql_llm w \<lparr>p_input = question x, p_table_info = info,
                          p_proper_nouns = proper_nouns x\<rparr> = Inr sql))
   \<and> (embedding_distance w (question x) = Inl e \<longrightarrow>
        retriever w vector_db (question x) = Inl e \<and> snd (chain w vector_db x) = Inl e)
   \<and> (retriever w vector_db (question x) = Inr docs
        \<and> table_info w (table_names_to_use x) = Inl e \<longrightarrow>
        snd (chain w vector_db x) = Inl e)
   \<and> (retriever w vector_db (question x) = Inr docs
        \<and> table_info w (table_names_to_use x) = Inr info
        \<and> sql_llm w \<lparr>p_input = question x, p_table_info = info,
                       p_proper_nouns = Some (str_join [CHR 0x0A] docs)\<rparr> = Inl e \<longrightarrow>
        snd (chain w vector_db x) = Inl e)
   \<and> (snd (chain w vector_db x) = Inr sql \<longrightarrow>
        (\<exists>docs info. retriever w vector_db (question x) = Inr docs
           \<and> table_info w (table_names_to_use x) = Inr info
           \<and> sql_llm w \<lparr>p_input = question x, p_table_info = info,
                          p_proper_nouns = Some (str_join [CHR 0x0A] docs)\<rparr> = Inr sql))
   \<and> (table_info w (table_names_to_use x) = Inl e \<longrightarrow>
        snd (create_sql_query_chain w x) = Inl e)
   \<and> (table_info w (table_names_to_use x) = Inr info
        \<and> sql_llm w \<lparr>p_input = question x, p_table_info = info,
                       p_proper_nouns = proper_nouns x\<rparr> = Inl e \<longrightarrow>
        snd (create_sql_query_chain w x) = Inl e)
   \<and> (db_run w query = Inl e \<longrightarrow> snd (execute w query) = Inl e)
   \<and> (snd (full_chain w \<lparr>question = q, table_names_to_use = None, proper_nouns = None\<rparr>)
          = Inl e \<longrightarrow>
        snd (full_chain_cells w q) = Inl e)
   \<and> (snd (full_chain w \<lparr>question = q, table_names_to_use = None, proper_nouns = None\<rparr>)
          = Inr sql \<and> db_run w sql = Inl e \<longrightarrow>
        snd (full_chain_cells w q) = Inl e)
   \<and> (snd (chain w vector_db \<lparr>question = q, table_names_to_use = None, proper_nouns = None\<rparr>)
          = Inl e \<longrightarrow>
        snd (chain_cells w vector_db q) = Inl e)
   \<and> (snd (chain w vector_db \<lparr>question = q, table_names_to_use = None, proper_nouns = None\<rparr>)
          = Inr sql \<and> db_run w sql = Inl e \<longrightarrow>
        snd (chain_cells w vector_db q) = Inl e)"
proof -
  have q1: "db_run w query = Inl e \<longrightarrow> query_as_list w query = Inl e"
    by (simp add: query_as_list_def)
  have q2: "db_run w query = Inr res \<and> literal_eval w res = Inl e \<longrightarrow>
      query_as_list w query = Inl e"
    by (simp add: query_as_list_def)
  have q3: "db_run w query = Inr res \<and> literal_eval w res = Inr v \<and> py_iter w v = Inl e \<longrightarrow>
      query_as_list w query = Inl e"
    by (simp add: query_as_list_def)
  have q4: "db_run w query = Inr res \<and> literal_eval w res = Inr v \<and> py_iter w v = Inr subs
      \<and> sub \<in> set subs \<and> py_iter w sub = Inl e \<longrightarrow> query_as_list w query = Inl e"
    using flatten_truthy_fail [of sub subs w e] py_iter_error [of w sub e]
    by (auto simp add: query_as_list_def)
  have q5: "db_run w query = Inr res \<and> literal_eval w res = Inr v \<and> py_iter w v = Inr subs
      \<and> map (py_iter w) subs = map Inr rows
      \<and> el \<in> set (concat rows) \<and> truthy el \<and> (\<forall>s. el \<noteq> PStr s) \<longrightarrow>
      query_as_list w query = Inl TypeError"
  proof
    assume a: "db_run w query = Inr res \<and> literal_eval w res = Inr v \<and> py_iter w v = Inr subs
      \<and> map (py_iter w) subs = map Inr rows
      \<and> el \<in> set (concat rows) \<and> truthy el \<and> (\<forall>s. el \<noteq> PStr s)"
    then have f: "flatten_truthy w subs = Inr (filter truthy (concat rows))"
      using flatten_truthy_rows by blast
    from a have "\<exists>v\<in>set (filter truthy (concat rows)). \<forall>s. v \<noteq> PStr s"
      by (intro bexI [of _ el]) simp_all
    then have "clean_all (filter truthy (concat rows)) = Inl TypeError"
      by (rule clean_all_non_string)
    with a f show "query_as_list w query = Inl TypeError"
      by (simp add: query_as_list_def)
  qed
  have q6: "query_as_list w query = Inr out \<longrightarrow>
      (\<exists>res v subs rows kept. db_run w query = Inr res \<and> literal_eval w res = Inr v
         \<and> py_iter w v = Inr subs \<and> map (py_iter w) subs = map Inr rows
         \<and> filter truthy (concat rows) = map PStr kept
         \<and> out = map (\<lambda>s. strip (re_sub_digits s)) kept)"
  proof
    assume "query_as_list w query = Inr out"
    then obtain res v subs els where r: "db_run w query = Inr res"
      "literal_eval w res = Inr v" "py_iter w v = Inr subs"
      "flatten_truthy w subs = Inr els" "clean_all els = Inr out"
      by (auto simp add: query_as_list_def split: sum.splits)
    from flatten_truthy_Inr [OF r(4)] obtain rows
      where rows: "map (py_iter w) subs = map Inr rows" "els = filter truthy (concat rows)"
      by blast
    from clean_all_Inr [OF r(5)] obtain kept
      where kept: "els = map PStr kept" "out = map (\<lambda>s. strip (re_sub_digits s)) kept"
      by blast
    have "db_run w query = Inr res \<and> literal_eval w res = Inr v
         \<and> py_iter w v = Inr subs \<and> map (py_iter w) subs = map Inr rows
         \<and> filter truthy (concat rows) = map PStr kept
         \<and> out = map (\<lambda>s. strip (re_sub_digits s)) kept"
      using r rows kept by simp
    then show "\<exists>res v subs rows kept. db_run w query = Inr res \<and> literal_eval w res = Inr v
         \<and> py_iter w v = Inr subs \<and> map (py_iter w) subs = map Inr rows
         \<and> filter truthy (concat rows) = map PStr kept
         \<and> out = map (\<lambda>s. strip (re_sub_digits s)) kept"
      by (intro exI [of _ res] exI [of _ v] exI [of _ subs] exI [of _ rows] exI [of _ kept])
  qed
  have s1: "query_as_list w query = Inl e \<longrightarrow> assign_proper_nouns w query b = (Some e, b)"
    by (simp add: assign_proper_nouns_def)
  have s2: "query_as_list w query = Inl e \<longrightarrow>
      extend_proper_nouns w query (Some old) = (Some e, Some old)"
    by (simp add: extend_proper_nouns_def)
  have s3: "fst (extend_proper_nouns w query b) \<noteq> None \<longrightarrow>
      snd (extend_proper_nouns w query b) = b"
    by (auto simp add: extend_proper_nouns_def split: option.splits sum.splits)
  have p1: "query_as_list w ''SELECT Name FROM Artist'' = Inl e \<longrightarrow>
      proper_nouns_cell w b = (Some e, b)"
    by (simp add: proper_nouns_cell_def seq_def assign_proper_nouns_def)
  have p2: "query_as_list w ''SELECT Name FROM Artist'' = Inr artists
      \<and> query_as_list w ''SELECT Title FROM Album'' = Inl e \<longrightarrow>
      proper_nouns_cell w b = (Some e, Some artists)"
    by (simp add: proper_nouns_cell_def seq_def assign_proper_nouns_def
        extend_proper_nouns_def)
  have p3: "query_as_list w ''SELECT Name FROM Artist'' = Inr artists
      \<and> query_as_list w ''SELECT Title FROM Album'' = Inr albums
      \<and> query_as_list w ''SELECT Name FROM Genre'' = Inl e \<longrightarrow>
      proper_nouns_cell w b = (Some e, Some (artists @ albums))"
    by (simp add: proper_nouns_cell_def seq_def assign_proper_nouns_def
        extend_proper_nouns_def)
  have f1: "category_llm w (question x) = Inl e \<longrightarrow>
      snd (table_chain w x) = Inl e \<and> snd (full_chain w x) = Inl e"
    by (simp add: full_chain_def table_chain_def step_def)
  have f2: "category_llm w (question x) = Inr categories
      \<and> table_info w (Some (get_tables categories)) = Inl e \<longrightarrow>
      snd (full_chain w x) = Inl e"
    by (simp add: full_chain_def table_chain_def step_def create_sql_query_chain_def)
  have f3: "category_llm w (question x) = Inr categories
      \<and> table_info w (Some (get_tables categories)) = Inr info
      \<and> sql_llm w \<lparr>p_input = question x, p_table_info = info,
                     p_proper_nouns = proper_nouns x\<rparr> = Inl e \<longrightarrow>
      snd (full_chain w x) = Inl e"
    by (simp add: full_chain_def table_chain_def step_def create_sql_query_chain_def)
  have f4: "snd (full_chain w x) = Inr sql \<longrightarrow>
      (\<exists>categories info. category_llm w (question x) = Inr categories
         \<and> table_info w (Some (get_tables categories)) = Inr info
         \<and> sql_llm w \<lparr>p_input = question x, p_table_info = info,
                        p_proper_nouns = proper_nouns x\<rparr> = Inr sql)"
    by (auto simp add: full_chain_def table_chain_def step_def create_sql_query_chain_def
        split: sum.splits)
  have c1: "embedding_distance w (question x) = Inl e \<longrightarrow>
      retriever w vector_db (question x) = Inl e \<and> snd (chain w vector_db x) = Inl e"
    by (simp add: chain_def retriever_chain_def retriever_def as_retriever_def step_def)
  have c2: "retriever w vector_db (question x) = Inr docs
      \<and> table_info w (table_names_to_use x) = Inl e \<longrightarrow>
      snd (chain w vector_db x) = Inl e"
    by (simp add: chain_def retriever_chain_def step_def create_sql_query_chain_def)
  have c3: "retriever w vector_db (question x) = Inr docs
      \<and> table_info w (table_names_to_use x) = Inr info
      \<and> sql_llm w \<lparr>p_input = question x, p_table_info = info,
                     p_proper_nouns = Some (str_join [CHR 0x0A] docs)\<rparr> = Inl e \<longrightarrow>
      snd (chain w vector_db x) = Inl e"
    by (simp add: chain_def retriever_chain_def step_def create_sql_query_chain_def)
  have c4: "snd (chain w vector_db x) = Inr sql \<longrightarrow>
      (\<exists>docs info. retriever w vector_db (question x) = Inr docs
         \<and> table_info w (table_names_to_use x) = Inr info
         \<and> sql_llm w \<lparr>p_input = question x, p_table_info = info,
                        p_proper_nouns = Some (str_join [CHR 0x0A] docs)\<rparr> = Inr sql)"
    by (auto simp add: chain_def retriever_chain_def step_def create_sql_query_chain_def
        split: sum.splits)
  have g1: "table_info w (table_names_to_use x) = Inl e \<longrightarrow>
      snd (create_sql_query_chain w x) = Inl e"
    by (simp add: create_sql_query_chain_def step_def)
  have g2: "table_info w (table_names_to_use x) = Inr info
      \<and> sql_llm w \<lparr>p_input = question x, p_table_info = info,
                     p_proper_nouns = proper_nouns x\<rparr> = Inl e \<longrightarrow>
      snd (create_sql_query_chain w x) = Inl e"
    by (simp add: create_sql_query_chain_def step_def)
  have e1: "db_run w query = Inl e \<longrightarrow> snd (execute w query) = Inl e"
    by (simp add: execute_def step_def)
  have then_Inl: "snd m = Inl e \<Longrightarrow> snd (then_do m f) = Inl e"
    for m :: "string traced" and f :: "string \<Rightarrow> string traced"
    by (cases m) (simp add: then_do_def)
  have then_Inr: "snd m = Inr sql \<Longrightarrow> db_run w sql = Inl e \<Longrightarrow>
      snd (then_do m (execute w)) = Inl e" for m :: "string traced"
    by (cases m) (simp add: execute_def step_def)
  have k1: "snd (full_chain w \<lparr>question = q, table_names_to_use = None, proper_nouns = None\<rparr>)
      = Inl e \<longrightarrow> snd (full_chain_cells w q) = Inl e"
    unfolding full_chain_cells_def using then_Inl by blast
  have k2: "snd (full_chain w \<lparr>question = q, table_names_to_use = None, proper_nouns = None\<rparr>)
      = Inr sql \<and> db_run w sql = Inl e \<longrightarrow> snd (full_chain_cells w q) = Inl e"
    unfolding full_chain_cells_def using then_Inr by blast
  have k3: "snd (chain w vector_db \<lparr>question = q, table_names_to_use = None,
      proper_nouns = None\<rparr>) = Inl e \<longrightarrow> snd (chain_cells w vector_db q) = Inl e"
    unfolding chain_cells_def using then_Inl by blast
  have k4: "snd (chain w vector_db \<lparr>question = q, table_names_to_use = None,
      proper_nouns = None\<rparr>) = Inr sql \<and> db_run w sql = Inl e \<longrightarrow>
      snd (chain_cells w vector_db q) = Inl e"
    unfolding chain_cells_def using then_Inr by blast
  show ?thesis
    apply (intro conjI)
    using q1 apply assumption
    using q2 apply assumption
    using q3 apply assumption
    using q4 apply assumption
    using q5 apply assumption
    using q6 apply assumption
    using s1 apply assumption
    using s2 apply assumption
    using s3 apply assumption
    using p1 apply assumption
    using p2 apply assumption
    using p3 apply assumption
    using f1 apply assumption
    using f2 apply assumption
    using f3 apply assumption
    using f4 apply assumption
    using c1 apply assumption
    using c2 apply assumption
    using c3 apply assumption
    using c4 apply assumption
    using g1 apply assumption
    using g2 apply assumption
    using e1 apply assumption
    using k1 apply assumption
    using k2 apply assumption
    using k3 apply assumption
    using k4 apply assumption
    done
qed

theorem errors_propagate_witness:
  "db_run failing_db ''SELECT Name FROM Artist'' = Inl DbError
   \<and> query_as_list failing_db ''SELECT Name FROM Artist'' = Inl DbError
   \<and> assign_proper_nouns failing_db ''SELECT Name FROM Artist'' None = (Some DbError, None)
   \<and> proper_nouns_cell failing_db (Some [''AC/DC'']) = (Some DbError, Some [''AC/DC''])
   \<and> snd (execute failing_db ''SELECT Name FROM Artist'') = Inl DbError
   \<and> sql_llm failing_llm
        \<lparr>p_input = ''Which genres are there?'',
           p_table_info = ''CREATE TABLE Genre (GenreId INTEGER, Name NVARCHAR(120))'',
           p_proper_nouns = None\<rparr> = Inl ApiError
   \<and> snd (full_chain failing_llm \<lparr>question = ''Which genres are there?'',
        table_names_to_use = None, proper_nouns = None\<rparr>) = Inl ApiError
   \<and> snd (full_chain_cells failing_llm ''Which genres are there?'') = Inl ApiError
   \<and> literal_eval numbered_rows ''[(1, 'AC/DC')]'' = Inr (PList [PTuple [PInt 1, PStr ''AC/DC'']])
   \<and> query_as_list numbered_rows ''SELECT * FROM Artist LIMIT 1;'' = Inl TypeError"
  using errors_propagate [where w = failing_db and query = "''SELECT Name FROM Artist''"
      and e = DbError and b = None]
    errors_propagate [where w = failing_db and query = "''SELECT Name FROM Artist''"
      and e = DbError and b = "Some [''AC/DC'']"]
    errors_propagate [where w = failing_llm and e = ApiError
      and x = "\<lparr>question = ''Which genres are there?'', table_names_to_use = None,
        proper_nouns = None\<rparr>"
      and q = "''Which genres are there?''"
      and categories = "[\<lparr>name = ''Music''\<rparr>, \<lparr>name = ''Business''\<rparr>]"
      and info = "''CREATE TABLE Genre (GenreId INTEGER, Name NVARCHAR(120))''"]
    errors_propagate [where w = numbered_rows and query = "''SELECT * FROM Artist LIMIT 1;''"
      and res = "''[(1, 'AC/DC')]''" and v = "PList [PTuple [PInt 1, PStr ''AC/DC'']]"
      and subs = "[PTuple [PInt 1, PStr ''AC/DC'']]" and rows = "[[PInt 1, PStr ''AC/DC'']]"
      and el = "PInt 1"]
  by (simp add: failing_db_def failing_llm_def numbered_rows_def chinook_extract_def)

subsection \<open>The order of the steps\<close>

text \<open>
  Claim C6. A run of \<^verbatim>\<open>full_chain\<close> followed by \<^verbatim>\<open>db.run(query)\<close> is a fixed sequence:
  table selection starts first; query generation starts only after table selection
  has returned, with \<^verbatim>\<open>table_names_to_use\<close> bound to what it returned; execution starts
  only after query generation has returned, on the string it returned. A step that
  raises ends the run.
\<close>

theorem full_chain_cells_trace:
  "((\<exists>e. category_llm w q = Inl e
        \<and> full_chain_cells w q = ([SelectStart q, Raised e], Inl e))
    \<or> (\<exists>categories e. category_llm w q = Inr categories
        \<and> full_chain_cells w q =
            ([SelectStart q, SelectDone (get_tables categories),
              GenerateStart \<lparr>question = q,
                table_names_to_use = Some (get_tables categories), proper_nouns = None\<rparr>,
              Raised e], Inl e))
    \<or> (\<exists>categories sql e. category_llm w q = Inr categories
        \<and> full_chain_cells w q =
            ([SelectStart q, SelectDone (get_tables categories),
              GenerateStart \<lparr>question = q,
                table_names_to_use = Some (get_tables categories), proper_nouns = None\<rparr>,
              GenerateDone sql, ExecuteStart sql, Raised e], Inl e))
    \<or> (\<exists>categories sql result. category_llm w q = Inr categories
        \<and> full_chain_cells w q =
            ([SelectStart q, SelectDone (get_tables categories),
              GenerateStart \<lparr>question = q,
                table_names_to_use = Some (get_tables categories), proper_nouns = None\<rparr>,
              GenerateDone sql, ExecuteStart sql, ExecuteDone result], Inr result)))
   \<and> (\<forall>x. GenerateStart x \<in> set (fst (full_chain_cells w q)) \<longrightarrow>
        (\<exists>tables. table_names_to_use x = Some tables
           \<and> preceded_by (fst (full_chain_cells w q)) (GenerateStart x) (SelectDone tables)))
   \<and> (\<forall>sql. ExecuteStart sql \<in> set (fst (full_chain_cells w q)) \<longrightarrow>
        preceded_by (fst (full_chain_cells w q)) (ExecuteStart sql) (GenerateDone sql))"
proof -
  let ?x = "\<lambda>categories. \<lparr>question = q,
      table_names_to_use = Some (get_tables categories), proper_nouns = None\<rparr>"
  have shape: "(\<exists>e. category_llm w q = Inl e
        \<and> full_chain_cells w q = ([SelectStart q, Raised e], Inl e))
    \<or> (\<exists>categories e. category_llm w q = Inr categories
        \<and> full_chain_cells w q =
            ([SelectStart q, SelectDone (get_tables categories), GenerateStart (?x categories),
              Raised e], Inl e))
    \<or> (\<exists>categories sql e. category_llm w q = Inr categories
        \<and> full_chain_cells w q =
            ([SelectStart q, SelectDone (get_tables categories), GenerateStart (?x categories),
              GenerateDone sql, ExecuteStart sql, Raised e], Inl e))
    \<or> (\<exists>categories sql result. category_llm w q = Inr categories
        \<and> full_chain_cells w q =
            ([SelectStart q, SelectDone (get_tables categories), GenerateStart (?x categories),
              GenerateDone sql, ExecuteStart sql, ExecuteDone result], Inr result))"
  proof (cases "category_llm w q")
    case (Inl e)
    then show ?thesis
      by (simp add: full_chain_cells_def full_chain_def table_chain_def step_def)
  next
    case (Inr categories)
    show ?thesis
    proof (cases "snd (create_sql_query_chain w (?x categories))")
      case (Inl e)
      with Inr show ?thesis
        by (auto simp add: full_chain_cells_def full_chain_def table_chain_def step_def
            create_sql_query_chain_def split: sum.splits)
    next
      case sql: (Inr sql)
      show ?thesis
      proof (cases "db_run w sql")
        case (Inl e)
        with Inr sql show ?thesis
          by (auto simp add: full_chain_cells_def full_chain_def table_chain_def step_def
              create_sql_query_chain_def execute_def split: sum.splits)
      next
        case res: (Inr result)
        with Inr sql show ?thesis
          by (auto simp add: full_chain_cells_def full_chain_def table_chain_def step_def
              create_sql_query_chain_def execute_def split: sum.splits)
      qed
    qed
  qed
  from shape have gen: "\<forall>x. GenerateStart x \<in> set (fst (full_chain_cells w q)) \<longrightarrow>
        (\<exists>tables. table_names_to_use x = Some tables
           \<and> preceded_by (fst (full_chain_cells w q)) (GenerateStart x) (SelectDone tables))"
    by (elim disjE exE conjE) auto
  from shape have exe: "\<forall>sql. ExecuteStart sql \<in> set (fst (full_chain_cells w q)) \<longrightarrow>
        preceded_by (fst (full_chain_cells w q)) (ExecuteStart sql) (GenerateDone sql)"
    by (elim disjE exE conjE) auto
  from shape gen exe show ?thesis by blast
qed


theorem full_chain_cells_trace_witness:
  "full_chain_cells chinook_extract ''Which genres are there?'' =
     ([SelectStart ''Which genres are there?'',
       SelectDone [''Album'', ''Artist'', ''Genre'', ''MediaType'', ''Playlist'',
                   ''PlaylistTrack'', ''Track'', ''Customer'', ''Employee'', ''Invoice'',
                   ''InvoiceLine''],
       GenerateStart \<lparr>question = ''Which genres are there?'',
         table_names_to_use =
           Some [''Album'', ''Artist'', ''Genre'', ''MediaType'', ''Playlist'',
                 ''PlaylistTrack'', ''Track'', ''Customer'', ''Employee'', ''Invoice'',
                 ''InvoiceLine''],
         proper_nouns = None\<rparr>,
       GenerateDone ''SELECT Name FROM Genre'',
       ExecuteStart ''SELECT Name FROM Genre'',
       ExecuteDone ''[('Rock',)]''],
      Inr ''[('Rock',)]'')
   \<and> preceded_by (fst (full_chain_cells chinook_extract ''Which genres are there?''))
        (ExecuteStart ''SELECT Name FROM Genre'') (GenerateDone ''SELECT Name FROM Genre'')"
  using full_chain_cells_trace [of chinook_extract "''Which genres are there?''"]
  by (simp add: full_chain_cells_def full_chain_def table_chain_def step_def
      create_sql_query_chain_def execute_def chinook_extract_def get_tables_def)

subsection \<open>Query construction\<close>

text \<open>
  Claim C5. With the language model as the oracle \<open>sql_llm\<close>, the query chain returns
  the oracle's response as it is. Whenever the oracle answers the prompt with a
  string, that string is the output of \<open>create_sql_query_chain\<close>, of \<open>full_chain\<close> (once
  the tables are selected) and of \<open>chain\<close> (once the proper nouns are retrieved), and it
  is the string the next cell passes to \<^verbatim>\<open>db.run\<close>. Conversely every output of these
  chains, and every string that is executed, is a response of the oracle.
\<close>

theorem query_chain_returns_response:
  "(table_info w (table_names_to_use x) = Inr info
      \<and> sql_llm w \<lparr>p_input = question x, p_table_info = info,
                     p_proper_nouns = proper_nouns x\<rparr> = Inr response \<longrightarrow>
      create_sql_query_chain w x = ([GenerateStart x, GenerateDone response], Inr response))
   \<and> (category_llm w (question x) = Inr categories
      \<and> table_info w (Some (get_tables categories)) = Inr info
      \<and> sql_llm w \<lparr>p_input = question x, p_table_info = info,
                     p_proper_nouns = proper_nouns x\<rparr> = Inr response \<longrightarrow>
      snd (full_chain w x) = Inr response)
   \<and> (retriever w vector_db (question x) = Inr docs
      \<and> table_info w (table_names_to_use x) = Inr info
      \<and> sql_llm w \<lparr>p_input = question x, p_table_info = info,
                     p_proper_nouns = Some (str_join [CHR 0x0A] docs)\<rparr> = Inr response \<longrightarrow>
      snd (chain w vector_db x) = Inr response)
   \<and> (snd (full_chain w \<lparr>question = q, table_names_to_use = None, proper_nouns = None\<rparr>)
        = Inr response \<longrightarrow>
      ExecuteStart response \<in> set (fst (full_chain_cells w q))
      \<and> snd (full_chain_cells w q) = db_run w response)
   \<and> (snd (chain w vector_db \<lparr>question = q, table_names_to_use = None, proper_nouns = None\<rparr>)
        = Inr response \<longrightarrow>
      ExecuteStart response \<in> set (fst (chain_cells w vector_db q))
      \<and> snd (chain_cells w vector_db q) = db_run w response)
   \<and> (snd (create_sql_query_chain w x) = Inr sql \<longrightarrow> (\<exists>p. sql_llm w p = Inr sql))
   \<and> (snd (full_chain w x) = Inr sql \<longrightarrow> (\<exists>p. sql_llm w p = Inr sql))
   \<and> (snd (chain w vector_db x) = Inr sql \<longrightarrow> (\<exists>p. sql_llm w p = Inr sql))
   \<and> (ExecuteStart sql \<in> set (fst (full_chain_cells w q)) \<longrightarrow> (\<exists>p. sql_llm w p = Inr sql))
   \<and> (ExecuteStart sql \<in> set (fst (chain_cells w vector_db q)) \<longrightarrow>
        (\<exists>p. sql_llm w p = Inr sql))"
proof -
  have gen: "snd (create_sql_query_chain w y) = Inr s \<Longrightarrow> \<exists>p. sql_llm w p = Inr s" for y s
    by (auto simp add: create_sql_query_chain_def step_def split: sum.splits)
  have gen_trace: "ExecuteStart s \<notin> set (fst (create_sql_query_chain w y))" for y s
    by (auto simp add: create_sql_query_chain_def step_def split: sum.splits)
  have full: "snd (full_chain w y) = Inr s \<Longrightarrow> \<exists>p. sql_llm w p = Inr s" for y s
    using gen by (auto simp add: full_chain_def table_chain_def step_def split: sum.splits)
  have full_trace: "ExecuteStart s \<notin> set (fst (full_chain w y))" for y s
    using gen_trace by (auto simp add: full_chain_def table_chain_def step_def split: sum.splits)
  have ch: "snd (chain w vector_db y) = Inr s \<Longrightarrow> \<exists>p. sql_llm w p = Inr s" for y s
    using gen
    by (auto simp add: chain_def retriever_chain_def step_def split: sum.splits)
  have ch_trace: "ExecuteStart s \<notin> set (fst (chain w vector_db y))" for y s
    using gen_trace
    by (auto simp add: chain_def retriever_chain_def step_def split: sum.splits)
  have exec: "ExecuteStart s \<in> set (fst (then_do m (execute w))) \<Longrightarrow>
      ExecuteStart s \<in> set (fst m) \<or> snd m = Inr s" for s and m :: "string traced"
    by (cases m) (auto simp add: then_do_def execute_def step_def split: sum.splits)
  have run: "snd m = Inr r \<Longrightarrow>
      ExecuteStart r \<in> set (fst (then_do m (execute w)))
      \<and> snd (then_do m (execute w)) = db_run w r" for r and m :: "string traced"
    by (cases m) (auto simp add: execute_def step_def split: sum.splits)
  have c1: "table_info w (table_names_to_use x) = Inr info
      \<and> sql_llm w \<lparr>p_input = question x, p_table_info = info,
                     p_proper_nouns = proper_nouns x\<rparr> = Inr response \<longrightarrow>
      create_sql_query_chain w x = ([GenerateStart x, GenerateDone response], Inr response)"
    by (simp add: create_sql_query_chain_def step_def)
  have c2: "category_llm w (question x) = Inr categories
      \<and> table_info w (Some (get_tables categories)) = Inr info
      \<and> sql_llm w \<lparr>p_input = question x, p_table_info = info,
                     p_proper_nouns = proper_nouns x\<rparr> = Inr response \<longrightarrow>
      snd (full_chain w x) = Inr response"
    by (simp add: full_chain_def table_chain_def step_def create_sql_query_chain_def)
  have c3: "retriever w vector_db (question x) = Inr docs
      \<and> table_info w (table_names_to_use x) = Inr info
      \<and> sql_llm w \<lparr>p_input = question x, p_table_info = info,
                     p_proper_nouns = Some (str_join [CHR 0x0A] docs)\<rparr> = Inr response \<longrightarrow>
      snd (chain w vector_db x) = Inr response"
    by (simp add: chain_def retriever_chain_def step_def create_sql_query_chain_def)
  have c4: "snd (full_chain w \<lparr>question = q, table_names_to_use = None, proper_nouns = None\<rparr>)
        = Inr response \<longrightarrow>
      ExecuteStart response \<in> set (fst (full_chain_cells w q))
      \<and> snd (full_chain_cells w q) = db_run w response"
    unfolding full_chain_cells_def using run by blast
  have c5: "snd (chain w vector_db \<lparr>question = q, table_names_to_use = None,
        proper_nouns = None\<rparr>) = Inr response \<longrightarrow>
      ExecuteStart response \<in> set (fst (chain_cells w vector_db q))
      \<and> snd (chain_cells w vector_db q) = db_run w response"
    unfolding chain_cells_def using run by blast
  have c6: "snd (create_sql_query_chain w x) = Inr sql \<longrightarrow> (\<exists>p. sql_llm w p = Inr sql)"
    using gen by blast
  have c7: "snd (full_chain w x) = Inr sql \<longrightarrow> (\<exists>p. sql_llm w p = Inr sql)"
    using full by blast
  have c8: "snd (chain w vector_db x) = Inr sql \<longrightarrow> (\<exists>p. sql_llm w p = Inr sql)"
    using ch by blast
  have c9: "ExecuteStart sql \<in> set (fst (full_chain_cells w q)) \<longrightarrow>
      (\<exists>p. sql_llm w p = Inr sql)"
    unfolding full_chain_cells_def using exec full full_trace by blast
  have c10: "ExecuteStart sql \<in> set (fst (chain_cells w vector_db q)) \<longrightarrow>
      (\<exists>p. sql_llm w p = Inr sql)"
    unfolding chain_cells_def using exec ch ch_trace by blast
  show ?thesis
    apply (intro conjI)
    using c1 apply assumption
    using c2 apply assumption
    using c3 apply assumption
    using c4 apply assumption
    using c5 apply assumption
    using c6 apply assumption
    using c7 apply assumption
    using c8 apply assumption
    using c9 apply assumption
    using c10 apply assumption
    done
qed

theorem query_chain_returns_response_witness:
  "category_llm chinook_extract ''Which genres are there?'' =
     Inr [\<lparr>name = ''Music''\<rparr>, \<lparr>name = ''Business''\<rparr>]
   \<and> table_info chinook_extract None =
     Inr ''CREATE TABLE Genre (GenreId INTEGER, Name NVARCHAR(120))''
   \<and> sql_llm chinook_extract
        \<lparr>p_input = ''Which genres are there?'',
           p_table_info = ''CREATE TABLE Genre (GenreId INTEGER, Name NVARCHAR(120))'',
           p_proper_nouns = Some ''Rock''\<rparr> = Inr ''SELECT Name FROM Genre''
   \<and> create_sql_query_chain chinook_extract
        \<lparr>question = ''Which genres are there?'', table_names_to_use = None,
           proper_nouns = Some ''Rock''\<rparr> =
       ([GenerateStart \<lparr>question = ''Which genres are there?'', table_names_to_use = None,
           proper_nouns = Some ''Rock''\<rparr>,
         GenerateDone ''SELECT Name FROM Genre''], Inr ''SELECT Name FROM Genre'')
   \<and> snd (full_chain chinook_extract
        \<lparr>question = ''Which genres are there?'', table_names_to_use = None,
           proper_nouns = None\<rparr>) = Inr ''SELECT Name FROM Genre''
   \<and> retriever chinook_extract [''Rock'', ''AC/DC''] ''Which genres are there?'' =
       Inr [''Rock'', ''AC/DC'']
   \<and> snd (chain chinook_extract [''Rock'', ''AC/DC'']
        \<lparr>question = ''Which genres are there?'', table_names_to_use = None,
           proper_nouns = None\<rparr>) = Inr ''SELECT Name FROM Genre''
   \<and> snd (chain_cells chinook_extract [''Rock'', ''AC/DC''] ''Which genres are there?'') =
       Inr ''[('Rock',)]''"
proof -
  let ?q = "''Which genres are there?''"
  let ?info = "''CREATE TABLE Genre (GenreId INTEGER, Name NVARCHAR(120))''"
  let ?sql = "''SELECT Name FROM Genre''"
  let ?x = "\<lparr>question = ?q, table_names_to_use = None, proper_nouns = None\<rparr>"
  note with_nouns = query_chain_returns_response [where w = chinook_extract
      and x = "\<lparr>question = ?q, table_names_to_use = None, proper_nouns = Some ''Rock''\<rparr>"
      and info = ?info and response = ?sql]
  note plain = query_chain_returns_response [where w = chinook_extract and x = ?x
      and q = ?q and vector_db = "[''Rock'', ''AC/DC'']" and docs = "[''Rock'', ''AC/DC'']"
      and info = ?info and response = ?sql
      and categories = "[\<lparr>name = ''Music''\<rparr>, \<lparr>name = ''Business''\<rparr>]"]
  have h1: "category_llm chinook_extract ?q = Inr [\<lparr>name = ''Music''\<rparr>, \<lparr>name = ''Business''\<rparr>]"
    by (simp add: chinook_extract_def)
  have h2: "table_info chinook_extract None = Inr ?info"
    by (simp add: chinook_extract_def)
  have h3: "sql_llm chinook_extract
      \<lparr>p_input = ?q, p_table_info = ?info, p_proper_nouns = Some ''Rock''\<rparr> = Inr ?sql"
    by (simp add: chinook_extract_def)
  have h5: "sql_llm chinook_extract p = Inr ?sql" for p
    by (simp add: chinook_extract_def)
  have h4: "retriever chinook_extract [''Rock'', ''AC/DC''] ?q = Inr [''Rock'', ''AC/DC'']"
    by (simp add: chinook_extract_def retriever_def as_retriever_def)
  have r1: "create_sql_query_chain chinook_extract
      \<lparr>question = ?q, table_names_to_use = None, proper_nouns = Some ''Rock''\<rparr> =
      ([GenerateStart \<lparr>question = ?q, table_names_to_use = None, proper_nouns = Some ''Rock''\<rparr>,
        GenerateDone ?sql], Inr ?sql)"
    by (rule mp [OF with_nouns [THEN conjunct1]]) (simp add: chinook_extract_def)
  have r2: "snd (full_chain chinook_extract ?x) = Inr ?sql"
    by (rule mp [OF plain [THEN conjunct2, THEN conjunct1]]) (simp add: chinook_extract_def)
  have r3: "snd (chain chinook_extract [''Rock'', ''AC/DC''] ?x) = Inr ?sql"
    by (rule mp [OF plain [THEN conjunct2, THEN conjunct2, THEN conjunct1]])
      (simp add: h2 h4 h5)
  have "snd (chain_cells chinook_extract [''Rock'', ''AC/DC''] ?q) =
      db_run chinook_extract ?sql"
    using plain [THEN conjunct2, THEN conjunct2, THEN conjunct2, THEN conjunct2,
        THEN conjunct1] r3 by simp
  then have r4: "snd (chain_cells chinook_extract [''Rock'', ''AC/DC''] ?q) = Inr ''[('Rock',)]''"
    by (simp add: chinook_extract_def)
  from h1 h2 h3 h4 r1 r2 r3 r4 show ?thesis by (intro conjI)
qed

subsection \<open>Retrieval of proper nouns\<close>

lemma sort_key_take_drop:
  fixes d :: "'a \<Rightarrow> real"
  shows "\<forall>x\<in>set (take k (sort_key d xs)). \<forall>y\<in>set (drop k (sort_key d xs)). d x \<le> d y"
proof -
  have "sorted (map d (take k (sort_key d xs) @ drop k (sort_key d xs)))"
    by (simp only: append_take_drop_id) simp
  then have "\<forall>a\<in>set (map d (take k (sort_key d xs))).
      \<forall>b\<in>set (map d (drop k (sort_key d xs))). a \<le> b"
    unfolding map_append sorted_append by blast
  then show ?thesis
    by simp
qed

lemma as_retriever_top_k:
  assumes "as_retriever w vector_db k q = Inr docs"
  shows "\<exists>d. embedding_distance w q = Inr d
           \<and> length docs = min k (length vector_db)
           \<and> sorted (map d docs)
           \<and> mset docs \<subseteq># mset vector_db
           \<and> (\<forall>x\<in>set docs. \<forall>y\<in>set_mset (mset vector_db - mset docs). d x \<le> d y)"
proof -
  from assms obtain d where d: "embedding_distance w q = Inr d"
    and docs: "docs = take k (sort_key d vector_db)"
    by (auto simp add: as_retriever_def split: sum.splits)
  let ?s = "sort_key d vector_db"
  have split: "mset vector_db = mset docs + mset (drop k ?s)"
    using docs by (metis append_take_drop_id mset_append mset_sort)
  have 1: "length docs = min k (length vector_db)"
    using docs by (simp add: min.commute)
  have 2: "sorted (map d docs)"
    unfolding docs by (simp add: take_map [symmetric] sorted_wrt_take)
  have 3: "mset docs \<subseteq># mset vector_db"
    using split by simp
  have "mset vector_db - mset docs = mset (drop k ?s)"
    using split by simp
  then have 4: "\<forall>x\<in>set docs. \<forall>y\<in>set_mset (mset vector_db - mset docs). d x \<le> d y"
    using sort_key_take_drop [of k d vector_db] docs by simp
  from d 1 2 3 4 show ?thesis by blast
qed

text \<open>
  Claim C7. Whenever the embedding API answers, the retriever returns the 15 indexed
  texts nearest to the question (all of them if there are fewer), nearest first: no
  text left out is nearer than a text returned; when the API fails, so does the
  retriever. So the prompt of the query chain is given the join of the retrieved
  proper nouns, at most 15 of them.
\<close>

theorem retriever_top_15:
  "(embedding_distance w q = Inl e \<longrightarrow> retriever w vector_db q = Inl e)
   \<and> (embedding_distance w q = Inr d \<longrightarrow>
       (\<exists>docs. retriever w vector_db q = Inr docs
          \<and> length docs = min 15 (length vector_db)
          \<and> sorted (map d docs)
          \<and> mset docs \<subseteq># mset vector_db
          \<and> (\<forall>x\<in>set docs. \<forall>y\<in>set_mset (mset vector_db - mset docs). d x \<le> d y)))
   \<and> (retriever w vector_db q = Inr docs \<longrightarrow>
      length docs \<le> 15
      \<and> (\<exists>d. embedding_distance w q = Inr d
           \<and> length docs = min 15 (length vector_db)
           \<and> sorted (map d docs)
           \<and> mset docs \<subseteq># mset vector_db
           \<and> (\<forall>x\<in>set docs. \<forall>y\<in>set_mset (mset vector_db - mset docs). d x \<le> d y)))
   \<and> (retriever w vector_db (question x) = Inr docs \<longrightarrow>
        RetrieveDone docs \<in> set (fst (chain w vector_db x))
        \<and> GenerateStart (x\<lparr>proper_nouns := Some (str_join [CHR 0x0A] docs)\<rparr>)
            \<in> set (fst (chain w vector_db x)))
   \<and> (\<forall>y. GenerateStart y \<in> set (fst (chain w vector_db x)) \<longrightarrow>
        (\<exists>docs. retriever w vector_db (question x) = Inr docs \<and> length docs \<le> 15
           \<and> proper_nouns y = Some (str_join [CHR 0x0A] docs)))"
proof -
  have top: "retriever w vector_db q = Inr ds \<Longrightarrow>
      \<exists>d. embedding_distance w q = Inr d
           \<and> length ds = min 15 (length vector_db)
           \<and> sorted (map d ds)
           \<and> mset ds \<subseteq># mset vector_db
           \<and> (\<forall>x\<in>set ds. \<forall>y\<in>set_mset (mset vector_db - mset ds). d x \<le> d y)" for ds
    using as_retriever_top_k [of w vector_db 15 q ds] by (simp add: retriever_def)
  have fail: "embedding_distance w q = Inl e \<longrightarrow> retriever w vector_db q = Inl e"
    by (simp add: retriever_def as_retriever_def)
  have returns: "embedding_distance w q = Inr d \<longrightarrow>
       (\<exists>docs. retriever w vector_db q = Inr docs
          \<and> length docs = min 15 (length vector_db)
          \<and> sorted (map d docs)
          \<and> mset docs \<subseteq># mset vector_db
          \<and> (\<forall>x\<in>set docs. \<forall>y\<in>set_mset (mset vector_db - mset docs). d x \<le> d y))"
  proof
    assume d: "embedding_distance w q = Inr d"
    then have r: "retriever w vector_db q = Inr (take 15 (sort_key d vector_db))"
      by (simp add: retriever_def as_retriever_def)
    from top [OF r] d have "retriever w vector_db q = Inr (take 15 (sort_key d vector_db))
        \<and> length (take 15 (sort_key d vector_db)) = min 15 (length vector_db)
        \<and> sorted (map d (take 15 (sort_key d vector_db)))
        \<and> mset (take 15 (sort_key d vector_db)) \<subseteq># mset vector_db
        \<and> (\<forall>x\<in>set (take 15 (sort_key d vector_db)).
             \<forall>y\<in>set_mset (mset vector_db - mset (take 15 (sort_key d vector_db))). d x \<le> d y)"
      using r by auto
    then show "\<exists>docs. retriever w vector_db q = Inr docs
          \<and> length docs = min 15 (length vector_db)
          \<and> sorted (map d docs)
          \<and> mset docs \<subseteq># mset vector_db
          \<and> (\<forall>x\<in>set docs. \<forall>y\<in>set_mset (mset vector_db - mset docs). d x \<le> d y)"
      by (intro exI [of _ "take 15 (sort_key d vector_db)"])
  qed
  have a: "retriever w vector_db q = Inr docs \<longrightarrow>
      length docs \<le> 15
      \<and> (\<exists>d. embedding_distance w q = Inr d
           \<and> length docs = min 15 (length vector_db)
           \<and> sorted (map d docs)
           \<and> mset docs \<subseteq># mset vector_db
           \<and> (\<forall>x\<in>set docs. \<forall>y\<in>set_mset (mset vector_db - mset docs). d x \<le> d y))"
  proof
    assume r: "retriever w vector_db q = Inr docs"
    from top [OF r] obtain d where d: "embedding_distance w q = Inr d
           \<and> length docs = min 15 (length vector_db)
           \<and> sorted (map d docs)
           \<and> mset docs \<subseteq># mset vector_db
           \<and> (\<forall>x\<in>set docs. \<forall>y\<in>set_mset (mset vector_db - mset docs). d x \<le> d y)"
      by blast
    then have "length docs \<le> 15" by simp
    with d show "length docs \<le> 15
      \<and> (\<exists>d. embedding_distance w q = Inr d
           \<and> length docs = min 15 (length vector_db)
           \<and> sorted (map d docs)
           \<and> mset docs \<subseteq># mset vector_db
           \<and> (\<forall>x\<in>set docs. \<forall>y\<in>set_mset (mset vector_db - mset docs). d x \<le> d y))"
      by blast
  qed
  have len: "retriever w vector_db (question x) = Inr ds \<Longrightarrow> length ds \<le> 15" for ds
    by (auto simp add: retriever_def as_retriever_def split: sum.splits)
  have inject: "retriever w vector_db (question x) = Inr docs \<longrightarrow>
        RetrieveDone docs \<in> set (fst (chain w vector_db x))
        \<and> GenerateStart (x\<lparr>proper_nouns := Some (str_join [CHR 0x0A] docs)\<rparr>)
            \<in> set (fst (chain w vector_db x))"
    by (auto simp add: chain_def retriever_chain_def step_def create_sql_query_chain_def
        split: sum.splits)
  have b: "\<forall>y. GenerateStart y \<in> set (fst (chain w vector_db x)) \<longrightarrow>
        (\<exists>docs. retriever w vector_db (question x) = Inr docs \<and> length docs \<le> 15
           \<and> proper_nouns y = Some (str_join [CHR 0x0A] docs))"
  proof (cases "retriever w vector_db (question x)")
    case (Inl e)
    then show ?thesis
      by (simp add: chain_def retriever_chain_def step_def)
  next
    case (Inr ds)
    with len [OF Inr] show ?thesis
      by (auto simp add: chain_def retriever_chain_def step_def create_sql_query_chain_def
          split: sum.splits)
  qed
  show ?thesis
    apply (intro conjI)
    using fail apply assumption
    using returns apply assumption
    using a apply assumption
    using inject apply assumption
    using b apply assumption
    done
qed

theorem retriever_top_15_witness:
  "embedding_distance chinook_extract ''elenis moriset'' = Inr (\<lambda>text. real (length text))
   \<and> length seventeen_nouns = 17
   \<and> retriever chinook_extract seventeen_nouns ''elenis moriset'' =
       Inr [''U2'', ''JET'', ''Kiss'', ''AC/DC'', ''Accept'', ''Santana'', ''BackBeat'',
            ''Aerosmith'', ''Audioslave'', ''Deep Purple'', ''Led Zeppelin'',
            ''Black Sabbath'', ''Caetano Veloso'', ''Alice In Chains'', ''System Of A Down'']
   \<and> length [''U2'', ''JET'', ''Kiss'', ''AC/DC'', ''Accept'', ''Santana'', ''BackBeat'',
            ''Aerosmith'', ''Audioslave'', ''Deep Purple'', ''Led Zeppelin'',
            ''Black Sabbath'', ''Caetano Veloso'', ''Alice In Chains'', ''System Of A Down'']
       = min 15 (length seventeen_nouns)"
proof -
  let ?docs = "[''U2'', ''JET'', ''Kiss'', ''AC/DC'', ''Accept'', ''Santana'', ''BackBeat'',
            ''Aerosmith'', ''Audioslave'', ''Deep Purple'', ''Led Zeppelin'',
            ''Black Sabbath'', ''Caetano Veloso'', ''Alice In Chains'', ''System Of A Down'']"
  note T = retriever_top_15 [where w = chinook_extract and vector_db = seventeen_nouns
      and q = "''elenis moriset''" and d = "\<lambda>text. real (length text)" and docs = ?docs]
  have h: "embedding_distance chinook_extract ''elenis moriset'' =
      Inr (\<lambda>text. real (length text))"
    by (simp add: chinook_extract_def)
  have n: "length seventeen_nouns = 17"
    by (simp add: seventeen_nouns_def)
  have r: "retriever chinook_extract seventeen_nouns ''elenis moriset'' = Inr ?docs"
    by (simp add: retriever_def as_retriever_def h seventeen_nouns_def)
  from mp [OF T [THEN conjunct2, THEN conjunct2, THEN conjunct1] r]
  have l: "length ?docs = min 15 (length seventeen_nouns)" by blast
  from h n r l show ?thesis by (intro conjI)
qed

subsection \<open>Determinism of the local logic\<close>





end
